theory Spec2Isabelle
  imports Main "HOL-Library.Word" "HOL-Library.Signed_Division" "HOL-Library.Multiset"
begin

section \<open>Syntax (AST.h)\<close>

text \<open>
  Identifiers (\<open>Var_id\<close>, \<open>Covar_id\<close>, \<open>Definition_id\<close>, \<open>Abstraction_id\<close>,
  \<open>Type_handle\<close>) are \<open>std::size_t\<close> wrappers; they are modelled as \<open>nat\<close>.
  Integer literals are \<open>std::int64_t\<close>, modelled as 64-bit words read by \<open>sint\<close>.
  Every constructor lists the fields of the C++ struct in declaration order; the last field
  of producers and consumers is the optional type handle filled in by the typer.
\<close>

type_synonym int64 = "64 word"

datatype arithmetic_op = Add | Sub | Mul | Div | Mod

datatype producer =
    Variable_prod nat string "nat option"
  | Value_prod int64 "nat option"
  | Mu_prod nat string statement "nat option"
  | Constructor_prod nat string "producer list" "consumer list" "bool option" "nat option"
  | Cocase_prod "clause list" "nat option"
and consumer =
    Covariable_cons nat string "nat option"
  | Mu_cons nat string statement "nat option"
  | Destructor_cons nat string "producer list" "consumer list" "nat option"
  | Case_cons "clause list" "nat option"
  | End_cons "nat option"
and statement =
    Arithmetic_stmt arithmetic_op producer producer consumer
  | Ifz_stmt producer statement statement
  | Cut_stmt producer consumer
  | Call_stmt nat string "producer list" "consumer list"
and clause =
    Clause (clause_abstraction_id: nat) (structor_name: string)
           (clause_arg_names: "string list") (clause_coarg_names: "string list")
           (clause_arg_ids: "nat list") (clause_coarg_ids: "nat list")
           (clause_body: statement)

record Definition =
  abstraction_id :: nat
  definition_name :: string
  arg_names :: "string list"
  coarg_names :: "string list"
  arg_ids :: "nat list"
  coarg_ids :: "nat list"
  body :: statement

record Program =
  definitions :: "Definition list"
  statements :: "statement list"

section \<open>Interpreter (Interpreter.cpp)\<close>

text \<open>
  Output to the stream (\<open>print\<close>, \<open>print_info\<close>) is not modelled. Exceptions and the
  other ways a call can fail to return are values of \<open>interp_error\<close>:
  \<open>Already_run\<close> and \<open>Stuck_computation\<close> are the two exception classes of the
  interpreter, \<open>Out_of_range\<close> is the \<open>std::out_of_range\<close> of \<open>vector::at\<close>,
  \<open>Assertion_failed\<close> a failed \<open>assert\<close>, and \<open>Undefined_behaviour\<close> stands for
  executions the C++ standard leaves undefined (a division whose quotient is not
  representable, dereferencing an empty
  \<open>Box\<close>).
\<close>

datatype interp_error =
    Already_run
  | Stuck_computation statement
  | Out_of_range
  | Assertion_failed
  | Undefined_behaviour

datatype step_result = Result_producer producer | Next_statement statement

subsection \<open>Values\<close>

text \<open>
  \<open>is_value\<close> takes its argument by reference and stores the answer for a constructor in
  its \<open>is_value\<close> field, so the model returns the producer as it is left behind.
  \<open>std::all_of\<close> stops at the first argument that is not a value; the arguments after it
  are not visited.
\<close>

function is_value :: "producer \<Rightarrow> bool \<times> producer"
  and all_of_is_value :: "producer list \<Rightarrow> bool \<times> producer list" where
  "is_value (Value_prod v t) = (True, Value_prod v t)"
| "is_value (Cocase_prod clauses t) = (True, Cocase_prod clauses t)"
| "is_value (Constructor_prod a n args coargs iv t) =
     (case iv of
        Some b \<Rightarrow> (b, Constructor_prod a n args coargs iv t)
      | None \<Rightarrow>
          (let (b, args') = all_of_is_value args
           in (b, Constructor_prod a n args' coargs (Some b) t)))"
| "is_value (Variable_prod x n t) = (False, Variable_prod x n t)"
| "is_value (Mu_prod c n s t) = (False, Mu_prod c n s t)"
| "all_of_is_value [] = (True, [])"
| "all_of_is_value (p # ps) =
     (let (b, p') = is_value p
      in if b then (let (bs, ps') = all_of_is_value ps in (bs, p' # ps'))
         else (False, p' # ps))"
  by pat_completeness auto
termination
  by (relation "measure (\<lambda>x. case x of Inl p \<Rightarrow> size p | Inr ps \<Rightarrow> size_list size ps)")
     auto

text \<open>\<open>std::find_if_not(args.begin(), args.end(), is_value)\<close>: the index of the first
  argument that is not a value.\<close>

fun find_non_value :: "producer list \<Rightarrow> nat option \<times> producer list" where
  "find_non_value [] = (None, [])"
| "find_non_value (p # ps) =
     (let (b, p') = is_value p
      in if b then (let (r, ps') = find_non_value ps in (map_option Suc r, p' # ps'))
         else (Some 0, p' # ps))"

subsection \<open>Arithmetic\<close>

text \<open>
  \<open>do_arithmetic\<close> on \<open>std::int64_t\<close>. In the built program \<open>left + right\<close>,
  \<open>left - right\<close> and \<open>left * right\<close> are the two's complement machine operations:
  the result is the exact one reduced modulo \<open>2 ^ 64\<close>, which is the arithmetic of
  \<open>64 word\<close>. \<open>left / right\<close> and \<open>left % right\<close> truncate towards zero (\<open>sdiv\<close> and
  \<open>smod\<close> on \<open>int\<close>). Both are undefined in C++ when the quotient is not representable,
  that is for \<open>INT64_MIN\<close> and \<open>-1\<close>, where the division instruction traps: \<open>None\<close>.
\<close>

definition representable :: "int \<Rightarrow> bool" where
  "representable v \<longleftrightarrow> - (2 ^ 63) \<le> v \<and> v < 2 ^ 63"

fun do_arithmetic :: "arithmetic_op \<Rightarrow> int64 \<Rightarrow> int64 \<Rightarrow> int64 option" where
  "do_arithmetic Add left right = Some (left + right)"
| "do_arithmetic Sub left right = Some (left - right)"
| "do_arithmetic Mul left right = Some (left * right)"
| "do_arithmetic Div left right =
     (if right \<noteq> 0
      then (if representable (sint left sdiv sint right)
            then Some (word_of_int (sint left sdiv sint right)) else None)
      else Some 1)"
| "do_arithmetic Mod left right =
     (if right \<noteq> 0
      then (if representable (sint left sdiv sint right)
            then Some (word_of_int (sint left smod sint right)) else None)
      else Some left)"

subsection \<open>Substitution\<close>

text \<open>
  \<open>replace\<close> works in place on the node; the maps hold pointers to the replacement
  values, which at every call site lie outside the node being rewritten. The model
  returns the rewritten node and takes the maps by value. \<open>std::map::erase\<close> is
  \<open>m(k := None)\<close>.
\<close>

fun replace_prod :: "producer \<Rightarrow> (nat \<rightharpoonup> producer) \<Rightarrow> (nat \<rightharpoonup> consumer) \<Rightarrow> producer"
  and replace_cons :: "consumer \<Rightarrow> (nat \<rightharpoonup> producer) \<Rightarrow> (nat \<rightharpoonup> consumer) \<Rightarrow> consumer"
  and replace_stmt :: "statement \<Rightarrow> (nat \<rightharpoonup> producer) \<Rightarrow> (nat \<rightharpoonup> consumer) \<Rightarrow> statement"
  and replace_clause :: "clause \<Rightarrow> (nat \<rightharpoonup> producer) \<Rightarrow> (nat \<rightharpoonup> consumer) \<Rightarrow> clause"
where
  "replace_prod (Variable_prod x n t) var_map covar_map =
     (case var_map x of Some p \<Rightarrow> p | None \<Rightarrow> Variable_prod x n t)"
| "replace_prod (Value_prod v t) var_map covar_map = Value_prod v t"
| "replace_prod (Mu_prod c n s t) var_map covar_map =
     Mu_prod c n (replace_stmt s var_map (covar_map(c := None))) t"
| "replace_prod (Constructor_prod a n args coargs iv t) var_map covar_map =
     Constructor_prod a n
       (map (\<lambda>arg. replace_prod arg var_map covar_map) args)
       (map (\<lambda>coarg. replace_cons coarg var_map covar_map) coargs)
       (if iv = Some False then None else iv) t"
| "replace_prod (Cocase_prod clauses t) var_map covar_map =
     Cocase_prod (map (\<lambda>cl. replace_clause cl var_map covar_map) clauses) t"
| "replace_cons (Covariable_cons c n t) var_map covar_map =
     (case covar_map c of Some k \<Rightarrow> k | None \<Rightarrow> Covariable_cons c n t)"
| "replace_cons (Mu_cons x n s t) var_map covar_map =
     Mu_cons x n (replace_stmt s (var_map(x := None)) covar_map) t"
| "replace_cons (Destructor_cons a n args coargs t) var_map covar_map =
     Destructor_cons a n
       (map (\<lambda>arg. replace_prod arg var_map covar_map) args)
       (map (\<lambda>coarg. replace_cons coarg var_map covar_map) coargs) t"
| "replace_cons (Case_cons clauses t) var_map covar_map =
     Case_cons (map (\<lambda>cl. replace_clause cl var_map covar_map) clauses) t"
| "replace_cons (End_cons t) var_map covar_map = End_cons t"
| "replace_stmt (Arithmetic_stmt op l r after) var_map covar_map =
     Arithmetic_stmt op (replace_prod l var_map covar_map) (replace_prod r var_map covar_map)
       (replace_cons after var_map covar_map)"
| "replace_stmt (Ifz_stmt c z other) var_map covar_map =
     Ifz_stmt (replace_prod c var_map covar_map) (replace_stmt z var_map covar_map)
       (replace_stmt other var_map covar_map)"
| "replace_stmt (Cut_stmt p c) var_map covar_map =
     Cut_stmt (replace_prod p var_map covar_map) (replace_cons c var_map covar_map)"
| "replace_stmt (Call_stmt d n args coargs) var_map covar_map =
     Call_stmt d n
       (map (\<lambda>arg. replace_prod arg var_map covar_map) args)
       (map (\<lambda>coarg. replace_cons coarg var_map covar_map) coargs)"
| "replace_clause (Clause a n ans cns ids coids s) var_map covar_map =
     Clause a n ans cns ids coids
       (replace_stmt s (fold (\<lambda>arg m. m(arg := None)) ids var_map)
                       (fold (\<lambda>coarg m. m(coarg := None)) coids covar_map))"

subsection \<open>Interpreter state\<close>

text \<open>
  The fields of \<open>class Interpreter\<close> that \<open>run\<close> and \<open>step\<close> read or write.
  \<open>run\<close> moves each statement out of \<open>statements\<close> before reducing it, which leaves
  an empty \<open>Box\<close> in the vector: \<open>None\<close> is such a moved-from element.
\<close>

record Interpreter =
  finished :: bool
  n_vars :: nat
  n_covars :: nat
  interp_definitions :: "Definition list"
  interp_statements :: "statement option list"

definition Interpreter_new :: "nat \<Rightarrow> nat \<Rightarrow> Program \<Rightarrow> Interpreter" where
  "Interpreter_new nv ncv program =
     \<lparr>finished = False, n_vars = nv, n_covars = ncv,
      interp_definitions = definitions program,
      interp_statements = map Some (statements program)\<rparr>"

definition fresh_var_id :: "Interpreter \<Rightarrow> nat \<times> Interpreter" where
  "fresh_var_id i = (n_vars i, i\<lparr>n_vars := n_vars i + 1\<rparr>)"

definition fresh_covar_id :: "Interpreter \<Rightarrow> nat \<times> Interpreter" where
  "fresh_covar_id i = (n_covars i, i\<lparr>n_covars := n_covars i + 1\<rparr>)"

subsection \<open>Focusing\<close>

text \<open>Decimal rendering of an index, as \<open>std::format("{}", n)\<close> prints it.\<close>

fun to_string :: "nat \<Rightarrow> string" where
  "to_string n =
     (if n < 10 then [char_of (48 + n)]
      else to_string (n div 10) @ [char_of (48 + n mod 10)])"

declare to_string.simps [simp del]

definition focus_var_template :: "string \<Rightarrow> nat \<Rightarrow> string" where
  "focus_var_template name idx = ''_'' @ name @ ''_'' @ to_string idx"

text \<open>
  \<open>focus_statement(stmt, prod, name)\<close> receives a reference \<open>prod\<close> to a producer inside
  \<open>stmt\<close>: it moves that producer out, puts a fresh variable in its place and returns
  \<open>[prod (mu' x stmt)]\<close>. The model takes the statement as a function of the slot
  \<open>prod\<close> refers to, and the producer found there.
\<close>

definition focus_statement ::
  "(producer \<Rightarrow> statement) \<Rightarrow> producer \<Rightarrow> string \<Rightarrow> Interpreter \<Rightarrow> statement \<times> Interpreter" where
  "focus_statement stmt prd new_var_name i =
     (let cut_prod = prd;
          (new_var_id, i') = fresh_var_id i;
          cut_cons = Mu_cons new_var_id new_var_name
                       (stmt (Variable_prod new_var_id new_var_name None)) None
      in (Cut_stmt cut_prod cut_cons, i'))"

definition focus_constructor ::
  "nat \<Rightarrow> string \<Rightarrow> producer list \<Rightarrow> consumer list \<Rightarrow> bool option \<Rightarrow> nat option \<Rightarrow> nat \<Rightarrow>
   Interpreter \<Rightarrow> producer \<times> Interpreter" where
  "focus_constructor a name args coargs iv t arg_index i =
     (let non_value = args ! arg_index;
          (new_covar_id, i1) = fresh_covar_id i;
          new_covar_name = focus_var_template name arg_index;
          inner_cut = (\<lambda>p. Cut_stmt (Constructor_prod a name (args[arg_index := p]) coargs iv t)
                                     (Covariable_cons new_covar_id new_covar_name None));
          (outer_cut, i2) =
             focus_statement inner_cut non_value (focus_var_template name arg_index) i1
      in (Mu_prod new_covar_id new_covar_name outer_cut None, i2))"

text \<open>
  \<open>focus_destructor\<close> moves \<open>cons\<close> into \<open>inner_cut\<close> and then formats the name of the
  focusing variable from \<open>cons->destructor_name\<close>. \<open>focus_constructor\<close> saves a copy of
  the name before the move; \<open>focus_destructor\<close> does not, so the second
  \<open>cons->destructor_name\<close> reads through the moved-from (empty) \<open>Box\<close>.
\<close>

definition focus_destructor ::
  "nat \<Rightarrow> string \<Rightarrow> producer list \<Rightarrow> consumer list \<Rightarrow> nat option \<Rightarrow> nat \<Rightarrow>
   Interpreter \<Rightarrow> interp_error + consumer \<times> Interpreter" where
  "focus_destructor a name args coargs t arg_index i = Inl Undefined_behaviour"

text \<open>
  In \<open>focus_arithmetic\<close>, \<open>focus_ifz\<close> and \<open>focus_call\<close> the statement and the
  reference into it are arguments of one call; the model follows the evaluation order
  in which the reference is taken before the statement is converted (right to left).
\<close>

definition focus_arithmetic ::
  "arithmetic_op \<Rightarrow> producer \<Rightarrow> producer \<Rightarrow> consumer \<Rightarrow> bool \<Rightarrow> Interpreter \<Rightarrow>
   statement \<times> Interpreter" where
  "focus_arithmetic op l r after focus_left i =
     (if focus_left
      then focus_statement (\<lambda>p. Arithmetic_stmt op p r after) l ''_ar_l'' i
      else focus_statement (\<lambda>p. Arithmetic_stmt op l p after) r ''_ar_r'' i)"

definition focus_ifz ::
  "producer \<Rightarrow> statement \<Rightarrow> statement \<Rightarrow> Interpreter \<Rightarrow> statement \<times> Interpreter" where
  "focus_ifz c z other i = focus_statement (\<lambda>p. Ifz_stmt p z other) c ''_ifz'' i"

definition focus_call ::
  "nat \<Rightarrow> string \<Rightarrow> producer list \<Rightarrow> consumer list \<Rightarrow> nat \<Rightarrow> Interpreter \<Rightarrow>
   statement \<times> Interpreter" where
  "focus_call d name args coargs arg_index i =
     focus_statement (\<lambda>p. Call_stmt d name (args[arg_index := p]) coargs) (args ! arg_index)
       (focus_var_template name arg_index) i"

subsection \<open>Reduction steps\<close>

text \<open>
  \<open>std::map::emplace\<close> keeps the first value stored under a key, as \<open>map_of\<close> of the
  zipped lists does.
\<close>

definition eval_clauses ::
  "nat \<Rightarrow> producer list \<Rightarrow> consumer list \<Rightarrow> clause list \<Rightarrow> statement \<Rightarrow>
   interp_error + statement" where
  "eval_clauses a args coargs clauses context =
     (case find (\<lambda>cl. clause_abstraction_id cl = a) clauses of
        None \<Rightarrow> Inl (Stuck_computation context)
      | Some matching \<Rightarrow>
          if length (clause_arg_ids matching) \<noteq> length args
             \<or> length (clause_coarg_ids matching) \<noteq> length coargs
          then Inl Assertion_failed
          else Inr (replace_stmt (clause_body matching)
                      (map_of (zip (clause_arg_ids matching) args))
                      (map_of (zip (clause_coarg_ids matching) coargs))))"

definition step_arithmetic ::
  "Interpreter \<Rightarrow> arithmetic_op \<Rightarrow> producer \<Rightarrow> producer \<Rightarrow> consumer \<Rightarrow>
   interp_error + step_result \<times> Interpreter" where
  "step_arithmetic i op l r after =
     (let (lv, l') = is_value l in
      if \<not> lv then
        (let (s, i') = focus_arithmetic op l' r after True i in Inr (Next_statement s, i'))
      else
        (let (rv, r') = is_value r in
         if \<not> rv then
           (let (s, i') = focus_arithmetic op l' r' after False i in Inr (Next_statement s, i'))
         else
           (case (l', r') of
              (Value_prod lval _, Value_prod rval _) \<Rightarrow>
                (case do_arithmetic op lval rval of
                   None \<Rightarrow> Inl Undefined_behaviour
                 | Some v \<Rightarrow> Inr (Next_statement (Cut_stmt (Value_prod v None) after), i))
            | _ \<Rightarrow> Inl (Stuck_computation (Arithmetic_stmt op l' r' after)))))"

definition step_ifz ::
  "Interpreter \<Rightarrow> producer \<Rightarrow> statement \<Rightarrow> statement \<Rightarrow>
   interp_error + step_result \<times> Interpreter" where
  "step_ifz i c z other =
     (let (cv, c') = is_value c in
      if \<not> cv then
        (let (s, i') = focus_ifz c' z other i in Inr (Next_statement s, i'))
      else
        (case c' of
           Value_prod v _ \<Rightarrow>
             if v = 0 then Inr (Next_statement z, i) else Inr (Next_statement other, i)
         | _ \<Rightarrow> Inl (Stuck_computation (Ifz_stmt c' z other))))"

text \<open>
  \<open>step(Box<Cut_stmt>&&)\<close>. A \<open>mu\<close> abstraction has the highest priority;
  \<open>step_cut_other\<close> is the rest of the \<open>if\<close> chain and the \<open>std::visit\<close> after it.
\<close>

definition step_cut_other ::
  "Interpreter \<Rightarrow> producer \<Rightarrow> consumer \<Rightarrow> interp_error + step_result \<times> Interpreter" where
  "step_cut_other i prd cons =
     (let (pv, prd') = is_value prd in
      if \<not> pv then
        (case prd' of
           Constructor_prod a name args coargs iv t \<Rightarrow>
             (let (non_value_arg, args') = find_non_value args in
              case non_value_arg of
                None \<Rightarrow> Inl Assertion_failed
              | Some idx \<Rightarrow>
                  (let (mu, i') = focus_constructor a name args' coargs iv t idx i
                   in Inr (Next_statement (Cut_stmt mu cons), i')))
         | _ \<Rightarrow> Inl (Stuck_computation (Cut_stmt prd' cons)))
      else
        (case cons of
           Mu_cons arg_id _ mu_body _ \<Rightarrow>
             Inr (Next_statement (replace_stmt mu_body [arg_id \<mapsto> prd'] Map.empty), i)
         | Case_cons clauses ct \<Rightarrow>
             (case prd' of
                Constructor_prod a name args coargs iv t \<Rightarrow>
                  (case eval_clauses a args coargs clauses (Cut_stmt prd' cons) of
                     Inl e \<Rightarrow> Inl e
                   | Inr res \<Rightarrow> Inr (Next_statement res, i))
              | _ \<Rightarrow> Inl (Stuck_computation (Cut_stmt prd' cons)))
         | Destructor_cons a name args coargs dt \<Rightarrow>
             (case prd' of
                Cocase_prod clauses t \<Rightarrow>
                  (let (non_value_arg, args') = find_non_value args in
                   case non_value_arg of
                     Some idx \<Rightarrow>
                       (case focus_destructor a name args' coargs dt idx i of
                          Inl e \<Rightarrow> Inl e
                        | Inr (mu, i') \<Rightarrow> Inr (Next_statement (Cut_stmt prd' mu), i'))
                   | None \<Rightarrow>
                       (case eval_clauses a args' coargs clauses
                               (Cut_stmt prd' (Destructor_cons a name args' coargs dt)) of
                          Inl e \<Rightarrow> Inl e
                        | Inr res \<Rightarrow> Inr (Next_statement res, i)))
              | _ \<Rightarrow> Inl (Stuck_computation (Cut_stmt prd' cons)))
         | End_cons _ \<Rightarrow> Inr (Result_producer prd', i)
         | Covariable_cons _ _ _ \<Rightarrow> Inl (Stuck_computation (Cut_stmt prd' cons))))"

definition step_cut ::
  "Interpreter \<Rightarrow> producer \<Rightarrow> consumer \<Rightarrow> interp_error + step_result \<times> Interpreter" where
  "step_cut i prd cons =
     (case prd of
        Mu_prod coarg_id _ mu_body _ \<Rightarrow>
          Inr (Next_statement (replace_stmt mu_body Map.empty [coarg_id \<mapsto> cons]), i)
      | _ \<Rightarrow> step_cut_other i prd cons)"

definition step_call ::
  "Interpreter \<Rightarrow> nat \<Rightarrow> string \<Rightarrow> producer list \<Rightarrow> consumer list \<Rightarrow>
   interp_error + step_result \<times> Interpreter" where
  "step_call i d name args coargs =
     (let (non_value, args') = find_non_value args in
      case non_value of
        Some idx \<Rightarrow>
          (let (s, i') = focus_call d name args' coargs idx i in Inr (Next_statement s, i'))
      | None \<Rightarrow>
          if d \<ge> length (interp_definitions i) then Inl Out_of_range
          else
            (let definition = interp_definitions i ! d in
             if length (arg_ids definition) \<noteq> length args'
                \<or> length (coarg_ids definition) \<noteq> length coargs
             then Inl Assertion_failed
             else Inr (Next_statement
                         (replace_stmt (body definition)
                            (map_of (zip (arg_ids definition) args'))
                            (map_of (zip (coarg_ids definition) coargs))), i)))"

fun step :: "Interpreter \<Rightarrow> statement \<Rightarrow> interp_error + step_result \<times> Interpreter" where
  "step i (Arithmetic_stmt op l r after) = step_arithmetic i op l r after"
| "step i (Ifz_stmt c z other) = step_ifz i c z other"
| "step i (Cut_stmt p c) = step_cut i p c"
| "step i (Call_stmt d name args coargs) = step_call i d name args coargs"

subsection \<open>The driver\<close>

text \<open>
  The inner \<open>while\<close> loop of \<open>run\<close> has no step bound: it is a partial function, and
  \<open>None\<close> means that the loop does not return. A thrown exception leaves the interpreter
  as it was when the failing step began.
\<close>

partial_function (option) run_steps ::
  "Interpreter \<Rightarrow> step_result \<Rightarrow> ((interp_error + producer) \<times> Interpreter) option" where
  "run_steps i current =
     (case current of
        Result_producer p \<Rightarrow> Some (Inr p, i)
      | Next_statement s \<Rightarrow>
          (case step i s of
             Inl e \<Rightarrow> Some (Inl e, i)
           | Inr (c, i') \<Rightarrow> run_steps i' c))"

declare run_steps.simps [code]

fun run_all ::
  "Interpreter \<Rightarrow> statement option list \<Rightarrow> nat \<Rightarrow> producer list \<Rightarrow>
   ((interp_error + producer list) \<times> Interpreter) option" where
  "run_all i [] k results = Some (Inr results, i)"
| "run_all i (stmt # rest) k results =
     (case stmt of
        None \<Rightarrow> Some (Inl Undefined_behaviour, i)
      | Some s \<Rightarrow>
          (case run_steps (i\<lparr>interp_statements := (interp_statements i)[k := None]\<rparr>)
                  (Next_statement s) of
             None \<Rightarrow> None
           | Some (Inl e, i') \<Rightarrow> Some (Inl e, i')
           | Some (Inr p, i') \<Rightarrow> run_all i' rest (Suc k) (results @ [p])))"

definition run :: "Interpreter \<Rightarrow> ((interp_error + producer list) \<times> Interpreter) option" where
  "run i =
     (if finished i then Some (Inl Already_run, i)
      else
        (case run_all i (interp_statements i) 0 [] of
           None \<Rightarrow> None
         | Some (Inl e, i') \<Rightarrow> Some (Inl e, i')
         | Some (Inr results, i') \<Rightarrow> Some (Inr results, i'\<lparr>finished := True\<rparr>)))"

section \<open>Typing context (Types.h, Types.cpp)\<close>

text \<open>
  \<open>Type_instance\<close> is a variant of a type variable, a concrete type and a
  \<open>Type_handle\<close>, the forwarding link of the union-find store; the store is the
  vector \<open>types\<close>, indexed by handle.
\<close>

datatype type_instance =
    Type_var nat
  | Concrete_type nat "nat list"
  | Type_handle nat

type_synonym type_store = "type_instance list"

text \<open>
  \<open>Abstraction\<close> and \<open>Abstraction_instance\<close> are the same struct template at two
  handle types; one record serves for both.
\<close>

record Abstraction =
  abs_type :: "nat option"
  abstraction_name :: string
  abs_args :: "nat list"
  abs_coargs :: "nat list"

record Typing_context =
  type_prototypes :: "nat list"
  type_names :: "string list"
  type_structors :: "nat \<rightharpoonup> nat set"
  abstractions :: "Abstraction list"
  types :: type_store

text \<open>
  What a call on the typing context can end in besides returning:
  \<open>Unification_exception\<close> with its kind and the two handles, a failed \<open>assert\<close>,
  an index outside a vector (\<open>operator[]\<close>, undefined in C++), and the library exceptions
  of \<open>map::at\<close> and \<open>optional::value\<close>.
\<close>

datatype unification_kind = Kind_occurs | Kind_mismatch

datatype ctx_error =
    Unification_exception unification_kind nat nat
  | Ctx_assertion_failed
  | Bad_handle
  | Std_out_of_range
  | Bad_optional_access

subsection \<open>Dereferencing\<close>

text \<open>
  The \<open>while\<close> loop of \<open>try_dereference\<close>: it follows the links from \<open>type\<close> and
  collects the handles it passes. It does not return on a cycle of links (\<open>None\<close>).
\<close>

partial_function (option) follow_chain ::
  "type_store \<Rightarrow> nat \<Rightarrow> nat list \<Rightarrow> (ctx_error + nat \<times> nat list) option" where
  "follow_chain ts type reference_chain =
     (if type \<ge> length ts then Some (Inl Bad_handle)
      else
        (case ts ! type of
           Type_handle next \<Rightarrow> follow_chain ts next (reference_chain @ [type])
         | _ \<Rightarrow> Some (Inr (type, reference_chain))))"

declare follow_chain.simps [code]

text \<open>The non-const overload compresses the chain: every handle on it but the last,
  which is direct already, is pointed at the end of the chain.\<close>

definition try_dereference ::
  "type_store \<Rightarrow> nat \<Rightarrow> (ctx_error + nat \<times> type_store) option" where
  "try_dereference ts type =
     (case follow_chain ts type [] of
        None \<Rightarrow> None
      | Some (Inl e) \<Rightarrow> Some (Inl e)
      | Some (Inr (end, reference_chain)) \<Rightarrow>
          Some (Inr (end, fold (\<lambda>reference s. s[reference := Type_handle end])
                            (butlast reference_chain) ts)))"

text \<open>The const overload follows the chain and changes nothing.\<close>

definition try_dereference_const :: "type_store \<Rightarrow> nat \<Rightarrow> (ctx_error + nat) option" where
  "try_dereference_const ts type =
     (case follow_chain ts type [] of
        None \<Rightarrow> None
      | Some (Inl e) \<Rightarrow> Some (Inl e)
      | Some (Inr (end, reference_chain)) \<Rightarrow> Some (Inr end))"

definition get_type_instance ::
  "Typing_context \<Rightarrow> nat \<Rightarrow> (ctx_error + type_instance) option" where
  "get_type_instance ctx ref =
     (case try_dereference_const (types ctx) ref of
        None \<Rightarrow> None
      | Some (Inl e) \<Rightarrow> Some (Inl e)
      | Some (Inr end) \<Rightarrow> Some (Inr (types ctx ! end)))"

subsection \<open>Unification\<close>

text \<open>
  \<open>occurs\<close> and \<open>unify_rec\<close> recurse through the parameters of concrete types and
  need not return when the parameters form a cycle. The first argument of the model
  bounds the depth of the recursion; \<open>None\<close> means that the bound was reached. The
  loops over the parameters are \<open>occurs_params\<close> and \<open>unify_params\<close>, which take the
  recursive call as an argument. Both functions return the store with their result:
  \<open>occurs\<close> compresses chains, and a failed \<open>unify\<close> leaves behind what it did before
  the exception.
\<close>

fun occurs_params ::
  "(type_store \<Rightarrow> nat \<Rightarrow> nat \<Rightarrow> ((ctx_error + bool) \<times> type_store) option) \<Rightarrow>
   type_store \<Rightarrow> nat \<Rightarrow> nat list \<Rightarrow> ((ctx_error + bool) \<times> type_store) option" where
  "occurs_params rec ts a [] = Some (Inr False, ts)"
| "occurs_params rec ts a (param # params) =
     (if param = a then Some (Inr True, ts)
      else
        (case rec ts a param of
           None \<Rightarrow> None
         | Some (Inr False, ts') \<Rightarrow> occurs_params rec ts' a params
         | Some (r, ts') \<Rightarrow> Some (r, ts')))"

primrec occurs ::
  "nat \<Rightarrow> type_store \<Rightarrow> nat \<Rightarrow> nat \<Rightarrow> ((ctx_error + bool) \<times> type_store) option" where
  "occurs 0 = (\<lambda>ts a b. None)"
| "occurs (Suc depth) = (\<lambda>ts a b.
     if a \<ge> length ts then Some (Inl Bad_handle, ts)
     else
       (case ts ! a of
          Type_var _ \<Rightarrow>
            (case try_dereference ts b of
               None \<Rightarrow> None
             | Some (Inl e) \<Rightarrow> Some (Inl e, ts)
             | Some (Inr (b', ts')) \<Rightarrow>
                 (case ts' ! b' of
                    Type_var _ \<Rightarrow> Some (Inr (a = b'), ts')
                  | Concrete_type type_id params \<Rightarrow> occurs_params (occurs depth) ts' a params
                  | Type_handle _ \<Rightarrow> Some (Inl Ctx_assertion_failed, ts')))
        | _ \<Rightarrow> Some (Inl Ctx_assertion_failed, ts)))"

datatype unify_result = Unified | Failed ctx_error

fun unify_params ::
  "(type_store \<Rightarrow> nat \<Rightarrow> nat \<Rightarrow> (unify_result \<times> type_store) option) \<Rightarrow>
   type_store \<Rightarrow> nat list \<Rightarrow> nat list \<Rightarrow> (unify_result \<times> type_store) option" where
  "unify_params rec ts (a # as) (b # bs) =
     (case rec ts a b of
        None \<Rightarrow> None
      | Some (Unified, ts') \<Rightarrow> unify_params rec ts' as bs
      | Some (Failed e, ts') \<Rightarrow> Some (Failed e, ts'))"
| "unify_params rec ts as bs = Some (Unified, ts)"

primrec unify_rec ::
  "nat \<Rightarrow> type_store \<Rightarrow> nat \<Rightarrow> nat \<Rightarrow> (unify_result \<times> type_store) option" where
  "unify_rec 0 = (\<lambda>ts a b. None)"
| "unify_rec (Suc depth) = (\<lambda>ts a b.
     case try_dereference ts a of
       None \<Rightarrow> None
     | Some (Inl e) \<Rightarrow> Some (Failed e, ts)
     | Some (Inr (a1, ts1)) \<Rightarrow>
     (case try_dereference ts1 b of
       None \<Rightarrow> None
     | Some (Inl e) \<Rightarrow> Some (Failed e, ts1)
     | Some (Inr (b1, ts2)) \<Rightarrow>
     if a1 = b1 then Some (Unified, ts2)
     else
       (let (a2, b2) = (case ts2 ! b1 of Type_var _ \<Rightarrow> (b1, a1) | _ \<Rightarrow> (a1, b1)) in
        case ts2 ! a2 of
          Type_var _ \<Rightarrow>
            (case occurs depth ts2 a2 b2 of
               None \<Rightarrow> None
             | Some (Inl e, ts3) \<Rightarrow> Some (Failed e, ts3)
             | Some (Inr True, ts3) \<Rightarrow>
                 Some (Failed (Unification_exception Kind_occurs a2 b2), ts3)
             | Some (Inr False, ts3) \<Rightarrow> Some (Unified, ts3[a2 := Type_handle b2]))
        | Concrete_type a_type_id a_params \<Rightarrow>
            (case ts2 ! b2 of
               Concrete_type b_type_id b_params \<Rightarrow>
                 if a_type_id \<noteq> b_type_id
                 then Some (Failed (Unification_exception Kind_mismatch a2 b2), ts2)
                 else if length a_params \<noteq> length b_params
                 then Some (Failed Ctx_assertion_failed, ts2)
                 else unify_params (unify_rec depth) ts2 a_params b_params
             | _ \<Rightarrow> Some (Failed Ctx_assertion_failed, ts2))
        | Type_handle _ \<Rightarrow> Some (Failed Ctx_assertion_failed, ts2))))"

definition unify ::
  "nat \<Rightarrow> Typing_context \<Rightarrow> nat \<Rightarrow> nat \<Rightarrow> (unify_result \<times> Typing_context) option" where
  "unify depth ctx a b =
     (case unify_rec depth (types ctx) a b of
        None \<Rightarrow> None
      | Some (r, ts) \<Rightarrow> Some (r, ctx\<lparr>types := ts\<rparr>))"

text \<open>A sequence of calls of \<open>unify\<close>, each exception caught by the caller (as
  \<open>Typer::try_unify\<close> and \<open>type_program\<close> do), the store carried on.\<close>

fun unify_all ::
  "nat \<Rightarrow> Typing_context \<Rightarrow> (nat \<times> nat) list \<Rightarrow> Typing_context option" where
  "unify_all depth ctx [] = Some ctx"
| "unify_all depth ctx ((a, b) # calls) =
     (case unify depth ctx a b of
        None \<Rightarrow> None
      | Some (r, ctx') \<Rightarrow> unify_all depth ctx' calls)"

subsection \<open>Fresh variables and instantiation\<close>

text \<open>
  \<open>fresh_type_variable\<close> numbers the variable \<open>types.size() - 1\<close>, read before the new
  slot is added (the number is for display only; on an empty store the C++ subtraction
  wraps around, which does not happen once the builtin types are there).
\<close>

definition fresh_type_variable :: "type_store \<Rightarrow> nat \<times> type_store" where
  "fresh_type_variable ts = (length ts, ts @ [Type_var (length ts - 1)])"

fun clone_params ::
  "(type_store \<Rightarrow> (nat \<rightharpoonup> nat) \<Rightarrow> nat \<Rightarrow> (ctx_error + nat \<times> type_store \<times> (nat \<rightharpoonup> nat)) option) \<Rightarrow>
   type_store \<Rightarrow> (nat \<rightharpoonup> nat) \<Rightarrow> nat list \<Rightarrow>
   (ctx_error + nat list \<times> type_store \<times> (nat \<rightharpoonup> nat)) option" where
  "clone_params rec ts m [] = Some (Inr ([], ts, m))"
| "clone_params rec ts m (param # params) =
     (case rec ts m param of
        None \<Rightarrow> None
      | Some (Inl e) \<Rightarrow> Some (Inl e)
      | Some (Inr (h, ts', m')) \<Rightarrow>
          (case clone_params rec ts' m' params of
             None \<Rightarrow> None
           | Some (Inl e) \<Rightarrow> Some (Inl e)
           | Some (Inr (hs, ts'', m'')) \<Rightarrow> Some (Inr (h # hs, ts'', m''))))"

text \<open>\<open>clone_type_rec\<close>, with the depth of its recursion bounded as for \<open>unify_rec\<close>.\<close>

primrec clone_type_rec ::
  "nat \<Rightarrow> type_store \<Rightarrow> (nat \<rightharpoonup> nat) \<Rightarrow> nat \<Rightarrow>
   (ctx_error + nat \<times> type_store \<times> (nat \<rightharpoonup> nat)) option" where
  "clone_type_rec 0 = (\<lambda>ts m type. None)"
| "clone_type_rec (Suc depth) = (\<lambda>ts m type.
     case try_dereference ts type of
       None \<Rightarrow> None
     | Some (Inl e) \<Rightarrow> Some (Inl e)
     | Some (Inr (t, ts1)) \<Rightarrow>
         (case m t of
            Some h \<Rightarrow> Some (Inr (h, ts1, m))
          | None \<Rightarrow>
              (case ts1 ! t of
                 Type_var _ \<Rightarrow>
                   (let (new_handle, ts2) = fresh_type_variable ts1
                    in Some (Inr (new_handle, ts2, m(t \<mapsto> new_handle))))
               | Concrete_type type_id params \<Rightarrow>
                   (let new_handle = length ts1;
                        ts2 = ts1 @ [Concrete_type type_id []];
                        m2 = m(t \<mapsto> new_handle)
                    in case clone_params (clone_type_rec depth) ts2 m2 params of
                         None \<Rightarrow> None
                       | Some (Inl e) \<Rightarrow> Some (Inl e)
                       | Some (Inr (new_params, ts3, m3)) \<Rightarrow>
                           (case ts3 ! new_handle of
                              Concrete_type tid _ \<Rightarrow>
                                Some (Inr (new_handle,
                                           ts3[new_handle := Concrete_type tid new_params], m3))
                            | _ \<Rightarrow> Some (Inl Ctx_assertion_failed)))
               | Type_handle _ \<Rightarrow> Some (Inl Ctx_assertion_failed))))"

definition clone_types ::
  "nat \<Rightarrow> type_store \<Rightarrow> nat list \<Rightarrow> (ctx_error + nat list \<times> type_store) option" where
  "clone_types depth ts to_clone =
     (case clone_params (clone_type_rec depth) ts Map.empty to_clone of
        None \<Rightarrow> None
      | Some (Inl e) \<Rightarrow> Some (Inl e)
      | Some (Inr (hs, ts', m)) \<Rightarrow> Some (Inr (hs, ts')))"

definition instantiate ::
  "nat \<Rightarrow> Typing_context \<Rightarrow> nat \<Rightarrow> (ctx_error + Abstraction \<times> Typing_context) option" where
  "instantiate depth ctx aid =
     (if aid \<ge> length (abstractions ctx) then Some (Inl Bad_handle)
      else
        (let abstraction = abstractions ctx ! aid;
             to_clone = abs_args abstraction @ abs_coargs abstraction
                        @ (case abs_type abstraction of Some t \<Rightarrow> [t] | None \<Rightarrow> [])
         in case clone_types depth (types ctx) to_clone of
              None \<Rightarrow> None
            | Some (Inl e) \<Rightarrow> Some (Inl e)
            | Some (Inr (fresh_types, ts)) \<Rightarrow>
                Some (Inr (\<lparr>abs_type = (case abs_type abstraction of
                                           Some t \<Rightarrow> Some (last fresh_types) | None \<Rightarrow> None),
                            abstraction_name = [],
                            abs_args = take (length (abs_args abstraction)) fresh_types,
                            abs_coargs = take (length (abs_coargs abstraction))
                                           (drop (length (abs_args abstraction)) fresh_types)\<rparr>,
                           ctx\<lparr>types := ts\<rparr>))))"

text \<open>\<open>get_abstraction_prototype\<close> hands out the abstraction's own handles and sets no
  result type.\<close>

definition get_abstraction_prototype :: "Typing_context \<Rightarrow> nat \<Rightarrow> ctx_error + Abstraction" where
  "get_abstraction_prototype ctx aid =
     (if aid \<ge> length (abstractions ctx) then Inl Bad_handle
      else
        (let abstraction = abstractions ctx ! aid
         in Inr \<lparr>abs_type = None, abstraction_name = abstraction_name abstraction,
                 abs_args = abs_args abstraction, abs_coargs = abs_coargs abstraction\<rparr>))"

definition get_abstraction :: "Typing_context \<Rightarrow> nat \<Rightarrow> ctx_error + Abstraction" where
  "get_abstraction ctx aid =
     (if aid \<ge> length (abstractions ctx) then Inl Bad_handle else Inr (abstractions ctx ! aid))"

definition structors_like :: "Typing_context \<Rightarrow> nat \<Rightarrow> ctx_error + nat set" where
  "structors_like ctx aid =
     (if aid \<ge> length (abstractions ctx) then Inl Bad_handle
      else
        (case abs_type (abstractions ctx ! aid) of
           None \<Rightarrow> Inl Bad_optional_access
         | Some t \<Rightarrow>
             (case type_structors ctx t of
                None \<Rightarrow> Inl Std_out_of_range
              | Some structors \<Rightarrow> Inr structors)))"

subsection \<open>Registering types, structors and definitions\<close>

fun fresh_type_variables :: "nat \<Rightarrow> type_store \<Rightarrow> nat list \<times> type_store" where
  "fresh_type_variables 0 ts = ([], ts)"
| "fresh_type_variables (Suc n) ts =
     (let (h, ts') = fresh_type_variable ts;
          (hs, ts'') = fresh_type_variables n ts'
      in (h # hs, ts''))"

definition add_type_prototype :: "Typing_context \<Rightarrow> string \<Rightarrow> nat \<Rightarrow> nat \<times> Typing_context" where
  "add_type_prototype ctx name n_params =
     (let prototype_handle = length (types ctx);
          ts1 = types ctx @ [Concrete_type (length (type_prototypes ctx)) []];
          (params, ts2) = fresh_type_variables n_params ts1;
          ts3 = ts2[prototype_handle := Concrete_type (length (type_prototypes ctx)) params]
      in (length (type_prototypes ctx),
          ctx\<lparr>types := ts3,
              type_prototypes := type_prototypes ctx @ [prototype_handle],
              type_names := type_names ctx @ [name]\<rparr>))"

datatype type_template =
    Type_template_var nat
  | Concrete_type_template nat "type_template list"

fun instantiate_type_template ::
  "type_store \<Rightarrow> type_template \<Rightarrow> nat list \<Rightarrow> (ctx_error + nat \<times> type_store)"
  and instantiate_type_templates ::
  "type_store \<Rightarrow> type_template list \<Rightarrow> nat list \<Rightarrow> (ctx_error + nat list \<times> type_store)"
where
  "instantiate_type_template ts (Type_template_var v) params =
     (if v < length params then Inr (params ! v, ts) else Inl Ctx_assertion_failed)"
| "instantiate_type_template ts (Concrete_type_template type_id tparams) params =
     (case instantiate_type_templates ts tparams params of
        Inl e \<Rightarrow> Inl e
      | Inr (new_params, ts') \<Rightarrow>
          Inr (length ts', ts' @ [Concrete_type type_id new_params]))"
| "instantiate_type_templates ts [] params = Inr ([], ts)"
| "instantiate_type_templates ts (t # tts) params =
     (case instantiate_type_template ts t params of
        Inl e \<Rightarrow> Inl e
      | Inr (h, ts') \<Rightarrow>
          (case instantiate_type_templates ts' tts params of
             Inl e \<Rightarrow> Inl e
           | Inr (hs, ts'') \<Rightarrow> Inr (h # hs, ts'')))"

definition add_structor ::
  "Typing_context \<Rightarrow> string \<Rightarrow> nat \<Rightarrow> type_template list \<Rightarrow> type_template list \<Rightarrow>
   ctx_error + nat \<times> Typing_context" where
  "add_structor ctx name type_id targs tcoargs =
     (if type_id \<ge> length (type_prototypes ctx) then Inl Ctx_assertion_failed
      else
        (let proto = type_prototypes ctx ! type_id in
         if proto \<ge> length (types ctx) then Inl Bad_handle
         else
           (case types ctx ! proto of
              Concrete_type _ params \<Rightarrow>
                (case instantiate_type_templates (types ctx) targs params of
                   Inl e \<Rightarrow> Inl e
                 | Inr (arg_handles, ts1) \<Rightarrow>
                     (case instantiate_type_templates ts1 tcoargs params of
                        Inl e \<Rightarrow> Inl e
                      | Inr (coarg_handles, ts2) \<Rightarrow>
                          Inr (length (abstractions ctx),
                               ctx\<lparr>types := ts2,
                                   abstractions := abstractions ctx @
                                     [\<lparr>abs_type = Some proto, abstraction_name = name,
                                       abs_args = arg_handles, abs_coargs = coarg_handles\<rparr>],
                                   type_structors := (type_structors ctx)
                                     (proto \<mapsto> insert (length (abstractions ctx))
                                        (case type_structors ctx proto of
                                           None \<Rightarrow> {} | Some s \<Rightarrow> s))\<rparr>)))
            | _ \<Rightarrow> Inl Ctx_assertion_failed)))"

definition add_definition ::
  "Typing_context \<Rightarrow> string \<Rightarrow> nat \<Rightarrow> nat \<Rightarrow> nat \<times> Typing_context" where
  "add_definition ctx name arity coarity =
     (let (arg_handles, ts1) = fresh_type_variables arity (types ctx);
          (coarg_handles, ts2) = fresh_type_variables coarity ts1
      in (length (abstractions ctx),
          ctx\<lparr>types := ts2,
              abstractions := abstractions ctx @
                [\<lparr>abs_type = None, abstraction_name = name,
                  abs_args = arg_handles, abs_coargs = coarg_handles\<rparr>]\<rparr>))"

definition get_primitive_prototype :: "Typing_context \<Rightarrow> nat \<Rightarrow> ctx_error + nat" where
  "get_primitive_prototype ctx aid =
     (if aid \<ge> length (type_prototypes ctx) then Inl Bad_handle
      else if type_prototypes ctx ! aid \<ge> length (types ctx) then Inl Bad_handle
      else
        (case types ctx ! (type_prototypes ctx ! aid) of
           Concrete_type _ [] \<Rightarrow> Inr (type_prototypes ctx ! aid)
         | _ \<Rightarrow> Inl Ctx_assertion_failed))"

subsection \<open>The builtin types and structors\<close>

definition builtin_types :: "(string \<times> nat) list" where
  "builtin_types =
     [(''Integer'', 0), (''List'', 1), (''Pair'', 2), (''Stream'', 1), (''LazyPair'', 2),
      (''Lambda'', 2)]"

definition builtin_structors :: "(string \<times> nat \<times> type_template list \<times> type_template list) list" where
  "builtin_structors =
     [(''Nil'', 1, [], []),
      (''Cons'', 1, [Type_template_var 0, Concrete_type_template 1 [Type_template_var 0]], []),
      (''Pair'', 2, [Type_template_var 0, Type_template_var 1], []),
      (''Head'', 3, [], [Type_template_var 0]),
      (''Tail'', 3, [], [Concrete_type_template 3 [Type_template_var 0]]),
      (''Fst'', 4, [], [Type_template_var 0]),
      (''Snd'', 4, [], [Type_template_var 1]),
      (''Ap'', 5, [Type_template_var 0], [Type_template_var 1])]"

fun add_structors ::
  "Typing_context \<Rightarrow> (string \<times> nat \<times> type_template list \<times> type_template list) list \<Rightarrow>
   ctx_error + Typing_context" where
  "add_structors ctx [] = Inr ctx"
| "add_structors ctx ((name, type_id, targs, tcoargs) # rest) =
     (case add_structor ctx name type_id targs tcoargs of
        Inl e \<Rightarrow> Inl e
      | Inr (aid, ctx') \<Rightarrow> add_structors ctx' rest)"

definition default_typing_context :: "ctx_error + Typing_context" where
  "default_typing_context =
     add_structors
       (fold (\<lambda>(name, n_params) ctx. snd (add_type_prototype ctx name n_params)) builtin_types
          \<lparr>type_prototypes = [], type_names = [], type_structors = Map.empty,
           abstractions = [], types = []\<rparr>)
       builtin_structors"


section \<open>Parser (Parser.cpp, Parser.h)\<close>

subsection \<open>The input stream\<close>

text \<open>
  The parser reads a \<open>std::istream\<close> through \<open>peek\<close>, \<open>get\<close>, \<open>putback\<close> and \<open>eof\<close>
  only. The model keeps the unread characters and the two state bits these calls set.
  \<open>peek\<close> and \<open>get\<close> return an \<open>int\<close>: the next character as an unsigned value, or
  \<open>EOF\<close>. A call on a stream that is not good sets \<open>failbit\<close> and returns \<open>EOF\<close>;
  \<open>peek\<close> at the end of the input sets \<open>eofbit\<close>, \<open>get\<close> there sets both bits; \<open>putback\<close>
  first clears \<open>eofbit\<close> and then puts the character back unless \<open>failbit\<close> is set. The
  parser only puts back characters it has just read, which the stream buffer is taken
  to accept.
\<close>

record istream =
  buf :: "char list"
  eofbit :: bool
  failbit :: bool

definition istream_of :: "string \<Rightarrow> istream" where
  "istream_of s = \<lparr>buf = s, eofbit = False, failbit = False\<rparr>"

definition EOF :: int where
  "EOF = - 1"

definition good :: "istream \<Rightarrow> bool" where
  "good input = (\<not> eofbit input \<and> \<not> failbit input)"

definition eof :: "istream \<Rightarrow> bool" where
  "eof input = eofbit input"

definition peek :: "istream \<Rightarrow> int \<times> istream" where
  "peek input =
     (if \<not> good input then (EOF, input\<lparr>failbit := True\<rparr>)
      else
        (case buf input of
           [] \<Rightarrow> (EOF, input\<lparr>eofbit := True\<rparr>)
         | c # cs \<Rightarrow> (of_char c, input)))"

definition get :: "istream \<Rightarrow> int \<times> istream" where
  "get input =
     (if \<not> good input then (EOF, input\<lparr>failbit := True\<rparr>)
      else
        (case buf input of
           [] \<Rightarrow> (EOF, input\<lparr>eofbit := True, failbit := True\<rparr>)
         | c # cs \<Rightarrow> (of_char c, input\<lparr>buf := cs\<rparr>)))"

definition putback :: "char \<Rightarrow> istream \<Rightarrow> istream" where
  "putback c input =
     (if failbit input then input\<lparr>eofbit := False\<rparr>
      else input\<lparr>eofbit := False, buf := c # buf input\<rparr>)"

text \<open>The character classes of \<open><cctype>\<close> in the C locale (the program never sets
  another one), on the \<open>int\<close> that \<open>peek\<close> returns.\<close>

definition isspace :: "int \<Rightarrow> bool" where
  "isspace c = (c = 32 \<or> (9 \<le> c \<and> c \<le> 13))"

definition isalpha :: "int \<Rightarrow> bool" where
  "isalpha c = ((65 \<le> c \<and> c \<le> 90) \<or> (97 \<le> c \<and> c \<le> 122))"

definition isdigit :: "int \<Rightarrow> bool" where
  "isdigit c = (48 \<le> c \<and> c \<le> 57)"

text \<open>A \<open>char\<close> converted to \<open>int\<close> (\<open>keyword[0]\<close> as the cause of an exception):
  \<open>char\<close> is signed on the platforms the program is built for.\<close>

definition int_of_signed_char :: "char \<Rightarrow> int" where
  "int_of_signed_char c = (if (of_char c :: int) \<ge> 128 then of_char c - 256 else of_char c)"

subsection \<open>Names (names/Names.h)\<close>

definition keyword_mu_p_ascii :: string where
  "keyword_mu_p_ascii = ''mu''"

definition keyword_mu_p_unicode :: string where
  "keyword_mu_p_unicode = [CHR 0xCE, CHR 0xBC]"

definition keyword_mu_c_ascii :: string where
  "keyword_mu_c_ascii = ''mu'' @ [CHR 0x27]"

definition keyword_mu_c_unicode :: string where
  "keyword_mu_c_unicode = [CHR 0xCE, CHR 0xBC, CHR 0x27]"

definition keyword_end :: string where
  "keyword_end = ''<END>''"

definition AST_mu_p :: string where
  "AST_mu_p = ''mu'' @ [CHR 0x27] @ '' abstraction''"

definition AST_mu_c :: string where
  "AST_mu_c = ''mu abstraction''"

subsection \<open>Parser state and exceptions\<close>

record Arity_info =
  info_arity :: nat
  info_coarity :: nat

datatype Syntax_polarity = Polarity_producer | Polarity_consumer | Polarity_none

text \<open>
  The counters are \<open>std::size_t\<close> in the source; the model counts in \<open>nat\<close> (an input
  that wraps them does not fit in memory). \<open>var_ctx[name]\<close> of a name that has no entry
  is the empty vector, so the two contexts are total functions.
\<close>

record Parser =
  parser_ctx :: Typing_context
  current_line :: nat
  parser_n_vars :: nat
  parser_n_covars :: nat
  n_defs :: nat
  var_ctx :: "string \<Rightarrow> nat list"
  covar_ctx :: "string \<Rightarrow> nat list"
  def_ids :: "string \<rightharpoonup> nat"
  constructor_ids :: "string \<rightharpoonup> nat"
  destructor_ids :: "string \<rightharpoonup> nat"
  structor_arity :: "nat \<rightharpoonup> Arity_info"
  def_arity :: "nat \<rightharpoonup> Arity_info"

text \<open>
  The first four constructors are \<open>Parse_exception\<close> and its three subclasses, with the
  cause line, the context line and the context first. The others are what leaves the
  parser without being a \<open>lammm::Exception\<close>: the two exceptions of \<open>std::stoll\<close>, the
  \<open>std::out_of_range\<close> of \<open>map::at\<close>, and a failure inside the typing context.
\<close>

datatype parse_error =
    Parse_exception nat nat string string
  | Unexpected_char_exception nat nat string int
  | Unknown_name_exception nat nat string string string
  | Arity_mismatch_exception nat nat string string Syntax_polarity nat nat
  | Std_invalid_argument
  | Std_out_of_range_stoll
  | Std_out_of_range_at
  | Ctx_exception ctx_error

definition parser_builtin_structors :: "(string \<times> nat \<times> Arity_info \<times> Syntax_polarity) list" where
  "parser_builtin_structors =
     [(''Nil'', 0, \<lparr>info_arity = 0, info_coarity = 0\<rparr>, Polarity_producer),
      (''Cons'', 1, \<lparr>info_arity = 2, info_coarity = 0\<rparr>, Polarity_producer),
      (''Pair'', 2, \<lparr>info_arity = 2, info_coarity = 0\<rparr>, Polarity_producer),
      (''Head'', 3, \<lparr>info_arity = 0, info_coarity = 1\<rparr>, Polarity_consumer),
      (''Tail'', 4, \<lparr>info_arity = 0, info_coarity = 1\<rparr>, Polarity_consumer),
      (''Fst'', 5, \<lparr>info_arity = 0, info_coarity = 1\<rparr>, Polarity_consumer),
      (''Snd'', 6, \<lparr>info_arity = 0, info_coarity = 1\<rparr>, Polarity_consumer),
      (''Ap'', 7, \<lparr>info_arity = 1, info_coarity = 1\<rparr>, Polarity_consumer)]"

definition Parser_new :: "Typing_context \<Rightarrow> Parser" where
  "Parser_new ctx =
     \<lparr>parser_ctx = ctx, current_line = 1, parser_n_vars = 0, parser_n_covars = 0, n_defs = 0,
      var_ctx = (\<lambda>name. []), covar_ctx = (\<lambda>name. []), def_ids = Map.empty,
      constructor_ids =
        map_of (map (\<lambda>(name, aid, info, pol). (name, aid))
                  (filter (\<lambda>(name, aid, info, pol). pol = Polarity_producer)
                     parser_builtin_structors)),
      destructor_ids =
        map_of (map (\<lambda>(name, aid, info, pol). (name, aid))
                  (filter (\<lambda>(name, aid, info, pol). pol = Polarity_consumer)
                     parser_builtin_structors)),
      structor_arity =
        map_of (map (\<lambda>(name, aid, info, pol). (aid, info)) parser_builtin_structors),
      def_arity = Map.empty\<rparr>"

subsection \<open>Lexical helpers\<close>

text \<open>A parsing function works on the parser object and the stream.\<close>

type_synonym pstate = "Parser \<times> istream"

function skip_whitespace :: "pstate \<Rightarrow> pstate" where
  "skip_whitespace (p, input) =
     (if eof input then (p, input)
      else
        (case peek input of
           (c, input1) \<Rightarrow>
             if isspace c then
               (case peek input1 of
                  (c', input2) \<Rightarrow>
                    (case get input2 of
                       (g, input3) \<Rightarrow>
                         skip_whitespace
                           (if c' = of_char CHR 0x0A
                            then p\<lparr>current_line := current_line p + 1\<rparr> else p,
                            input3)))
             else (p, input1)))"
  by pat_completeness auto
termination
  by (relation "measure (\<lambda>(p, input). length (buf input))")
     (auto simp add: peek_def get_def isspace_def EOF_def good_def eof_def
        split: if_splits list.splits)

declare skip_whitespace.simps [simp del]

definition SIZE_MAX :: nat where
  "SIZE_MAX = 2 ^ 64 - 1"

text \<open>The loop of \<open>read_word\<close>; \<open>word.put(input.get())\<close> converts the \<open>int\<close> that \<open>get\<close>
  returns to a \<open>char\<close>.\<close>

function read_word_loop :: "nat \<Rightarrow> nat \<Rightarrow> string \<Rightarrow> istream \<Rightarrow> string \<times> istream" where
  "read_word_loop max_len len word input =
     (if len \<ge> max_len then (word, input)
      else
        (case peek input of
           (c, input1) \<Rightarrow>
             if c = of_char CHR ''('' \<or> c = of_char CHR '')''
                \<or> c = of_char CHR ''['' \<or> c = of_char CHR '']''
             then (word, input1)
             else if isspace c \<or> eof input1 then (word, input1)
             else
               (case get input1 of
                  (g, input2) \<Rightarrow>
                    read_word_loop max_len (len + 1) (word @ [char_of g]) input2)))"
  by pat_completeness auto
termination
  by (relation "measure (\<lambda>(max_len, len, word, input). max_len - len)") auto

declare read_word_loop.simps [simp del]

definition read_word :: "nat \<Rightarrow> pstate \<Rightarrow> string \<times> pstate" where
  "read_word max_len st =
     (case skip_whitespace st of
        (p, input) \<Rightarrow>
          (case read_word_loop max_len 0 [] input of
             (word, input') \<Rightarrow> (word, p, input')))"

definition peek_word :: "nat \<Rightarrow> pstate \<Rightarrow> string \<times> pstate" where
  "peek_word max_len st =
     (case read_word max_len st of
        (word, p, input) \<Rightarrow> (word, p, fold putback (rev word) input))"

subsection \<open>Running a parsing function\<close>

text \<open>
  A parsing function either throws or returns a value and leaves the parser and the
  stream changed. \<open>None\<close> is a call that has not returned within the bound given to the
  recursive functions below.
\<close>

type_synonym 'a parser = "pstate \<Rightarrow> (parse_error + 'a \<times> pstate) option"

definition succeed :: "'a \<Rightarrow> 'a parser" where
  "succeed x = (\<lambda>st. Some (Inr (x, st)))"

definition throw :: "parse_error \<Rightarrow> 'a parser" where
  "throw e = (\<lambda>st. Some (Inl e))"

definition diverge :: "'a parser" where
  "diverge = (\<lambda>st. None)"

definition and_then :: "'a parser \<Rightarrow> ('a \<Rightarrow> 'b parser) \<Rightarrow> 'b parser" where
  "and_then m f =
     (\<lambda>st. case m st of
              None \<Rightarrow> None
            | Some (Inl e) \<Rightarrow> Some (Inl e)
            | Some (Inr (x, st')) \<Rightarrow> f x st')"

definition returning :: "(pstate \<Rightarrow> 'a \<times> pstate) \<Rightarrow> 'a parser" where
  "returning f = (\<lambda>st. Some (Inr (f st)))"

definition effect :: "(pstate \<Rightarrow> pstate) \<Rightarrow> unit parser" where
  "effect f = (\<lambda>st. Some (Inr ((), f st)))"

definition on_input :: "(istream \<Rightarrow> 'a \<times> istream) \<Rightarrow> 'a parser" where
  "on_input f = (\<lambda>(p, input). case f input of (x, input') \<Rightarrow> Some (Inr (x, p, input')))"

definition unconsume :: "char \<Rightarrow> unit parser" where
  "unconsume c = (\<lambda>(p, input). Some (Inr ((), p, putback c input)))"

definition at_eof :: "bool parser" where
  "at_eof = (\<lambda>(p, input). Some (Inr (eof input, p, input)))"

definition read_state :: "(Parser \<Rightarrow> 'a) \<Rightarrow> 'a parser" where
  "read_state f = (\<lambda>(p, input). Some (Inr (f p, p, input)))"

definition update_state :: "(Parser \<Rightarrow> Parser) \<Rightarrow> unit parser" where
  "update_state f = (\<lambda>(p, input). Some (Inr ((), f p, input)))"

text \<open>Throwing an exception whose first field is \<open>current_line\<close>.\<close>

definition throw_here :: "(nat \<Rightarrow> parse_error) \<Rightarrow> 'a parser" where
  "throw_here e = and_then (read_state current_line) (\<lambda>line. throw (e line))"

definition expect :: "char \<Rightarrow> string \<Rightarrow> nat \<Rightarrow> unit parser" where
  "expect expected context start_line =
     and_then (on_input get) (\<lambda>c.
       if c \<noteq> of_char expected
       then throw_here (\<lambda>line. Unexpected_char_exception line start_line context c)
       else succeed ())"

text \<open>\<open>keyword.empty() ? input.peek() : keyword[0]\<close>\<close>

definition word_cause :: "string \<Rightarrow> int parser" where
  "word_cause word =
     (if word = [] then on_input peek else succeed (int_of_signed_char (hd word)))"

text \<open>
  \<open>parse_list<T>\<close>: the elements up to the closing parenthesis. The loop has no bound
  in the source (an element parser that returns without consuming input, as
  \<open>read_word\<close> does in front of a bracket, keeps it running), so the model gives it one.
\<close>

primrec parse_list_loop ::
  "nat \<Rightarrow> 'a parser \<Rightarrow> string \<Rightarrow> nat \<Rightarrow> 'a list \<Rightarrow> 'a list parser" where
  "parse_list_loop 0 elem syntax_kind start_line result = diverge"
| "parse_list_loop (Suc n) elem syntax_kind start_line result =
     and_then (effect skip_whitespace) (\<lambda>u.
     and_then (on_input peek) (\<lambda>c.
       if c = of_char CHR '')'' then and_then (on_input get) (\<lambda>g. succeed result)
       else
         and_then at_eof (\<lambda>e.
           if e then
             and_then (on_input peek) (\<lambda>c'.
               throw_here (\<lambda>line.
                 Unexpected_char_exception line start_line (syntax_kind @ '' list'') c'))
           else
             and_then elem (\<lambda>x.
               parse_list_loop n elem syntax_kind start_line (result @ [x])))))"

definition parse_list :: "nat \<Rightarrow> 'a parser \<Rightarrow> string \<Rightarrow> 'a list parser" where
  "parse_list n elem syntax_kind =
     and_then (effect skip_whitespace) (\<lambda>u.
     and_then (read_state current_line) (\<lambda>start_line.
     and_then (on_input get) (\<lambda>c.
       if c \<noteq> of_char CHR ''(''
       then throw_here (\<lambda>line.
              Unexpected_char_exception line start_line (syntax_kind @ '' list'') c)
       else parse_list_loop n elem syntax_kind start_line [])))"

text \<open>The loops that give each bound name a fresh id and push it on the name's stack,
  and the loops that pop the stacks again.\<close>

fun push_vars :: "string list \<Rightarrow> Parser \<Rightarrow> nat list \<times> Parser" where
  "push_vars [] p = ([], p)"
| "push_vars (name # names) p =
     (let arg_id = parser_n_vars p;
          p1 = p\<lparr>parser_n_vars := arg_id + 1,
                 var_ctx := (var_ctx p)(name := var_ctx p name @ [arg_id])\<rparr>
      in case push_vars names p1 of (ids, p2) \<Rightarrow> (arg_id # ids, p2))"

fun push_covars :: "string list \<Rightarrow> Parser \<Rightarrow> nat list \<times> Parser" where
  "push_covars [] p = ([], p)"
| "push_covars (name # names) p =
     (let coarg_id = parser_n_covars p;
          p1 = p\<lparr>parser_n_covars := coarg_id + 1,
                 covar_ctx := (covar_ctx p)(name := covar_ctx p name @ [coarg_id])\<rparr>
      in case push_covars names p1 of (ids, p2) \<Rightarrow> (coarg_id # ids, p2))"

definition pop_vars :: "string list \<Rightarrow> Parser \<Rightarrow> Parser" where
  "pop_vars names p =
     fold (\<lambda>name p. p\<lparr>var_ctx := (var_ctx p)(name := butlast (var_ctx p name))\<rparr>) names p"

definition pop_covars :: "string list \<Rightarrow> Parser \<Rightarrow> Parser" where
  "pop_covars names p =
     fold (\<lambda>name p. p\<lparr>covar_ctx := (covar_ctx p)(name := butlast (covar_ctx p name))\<rparr>) names p"

subsection \<open>Producers, consumers and statements\<close>

text \<open>
  The parsing functions call each other recursively. Each is written here with the
  functions it calls recursively as arguments (\<open>pp\<close>, \<open>pc\<close> and \<open>ps\<close> stand for
  \<open>parse_producer\<close>, \<open>parse_consumer\<close> and \<open>parse_statement\<close>); \<open>parsers\<close> below closes
  the recursion, bounded by a depth \<open>n\<close>, which also bounds the list loops.
\<close>

definition parse_variable :: "producer parser" where
  "parse_variable =
     and_then (returning (read_word SIZE_MAX)) (\<lambda>name.
       if name = [] then
         and_then (on_input peek) (\<lambda>c.
           throw_here (\<lambda>line. Unexpected_char_exception line line ''variable'' c))
       else
         and_then (read_state (\<lambda>p. var_ctx p name)) (\<lambda>stack.
           if stack = [] then
             throw_here (\<lambda>line. Unknown_name_exception line line ''variable'' ''variable'' name)
           else succeed (Variable_prod (last stack) name None)))"

text \<open>\<open>std::stoll\<close> in base 10: optional leading whitespace, an optional sign, then
  digits; the result is the value and the number of characters processed.\<close>

definition stoll :: "string \<Rightarrow> parse_error + int \<times> nat" where
  "stoll s =
     (let s1 = dropWhile (\<lambda>c. isspace (of_char c)) s;
          negative = (s1 \<noteq> [] \<and> hd s1 = CHR ''-'');
          s2 = (if s1 \<noteq> [] \<and> (hd s1 = CHR ''-'' \<or> hd s1 = CHR ''+'') then tl s1 else s1);
          digits = takeWhile (\<lambda>c. isdigit (of_char c)) s2;
          magnitude = foldl (\<lambda>acc c. 10 * acc + (of_char c - 48)) (0 :: int) digits;
          v = (if negative then - magnitude else magnitude)
      in if digits = [] then Inl Std_invalid_argument
         else if v < - (2 ^ 63) \<or> 2 ^ 63 \<le> v then Inl Std_out_of_range_stoll
         else Inr (v, length s - length s2 + length digits))"

definition parse_value :: "producer parser" where
  "parse_value =
     and_then (returning (read_word SIZE_MAX)) (\<lambda>literal.
       if literal = [] then
         and_then (on_input peek) (\<lambda>c.
           throw_here (\<lambda>line. Unexpected_char_exception line line ''value'' c))
       else
         (case stoll literal of
            Inl e \<Rightarrow> throw e
          | Inr (v, processed) \<Rightarrow>
              if processed \<noteq> length literal then
                throw_here (\<lambda>line.
                  Parse_exception line line ''value'' (''invalid integer literal: '' @ literal))
              else succeed (Value_prod (word_of_int v) None)))"

definition parse_mu_p :: "statement parser \<Rightarrow> producer parser" where
  "parse_mu_p ps =
     and_then (effect skip_whitespace) (\<lambda>u.
     and_then (read_state current_line) (\<lambda>start_line.
     and_then (expect CHR ''('' AST_mu_p start_line) (\<lambda>u.
     and_then (returning (read_word SIZE_MAX)) (\<lambda>keyword.
       if keyword \<noteq> keyword_mu_p_ascii \<and> keyword \<noteq> keyword_mu_p_unicode then
         and_then (word_cause keyword) (\<lambda>cause.
           throw_here (\<lambda>line. Unexpected_char_exception line start_line AST_mu_p cause))
       else
         and_then (returning (read_word SIZE_MAX)) (\<lambda>coarg_name.
           if coarg_name = [] then
             and_then (on_input peek) (\<lambda>c.
               throw_here (\<lambda>line. Unexpected_char_exception line start_line AST_mu_p c))
           else
             and_then (read_state parser_n_covars) (\<lambda>coarg_id.
             and_then (update_state (\<lambda>p.
               p\<lparr>parser_n_covars := coarg_id + 1,
                  covar_ctx := (covar_ctx p)(coarg_name := covar_ctx p coarg_name @ [coarg_id])\<rparr>))
               (\<lambda>u.
             and_then ps (\<lambda>bdy.
             and_then (update_state (\<lambda>p.
               p\<lparr>covar_ctx := (covar_ctx p)(coarg_name := butlast (covar_ctx p coarg_name))\<rparr>))
               (\<lambda>u.
             and_then (expect CHR '')'' AST_mu_p start_line) (\<lambda>u.
             succeed (Mu_prod coarg_id coarg_name bdy None)))))))))))"

definition parse_structor ::
  "nat \<Rightarrow> producer parser \<Rightarrow> consumer parser \<Rightarrow> Syntax_polarity \<Rightarrow>
   (nat \<times> string \<times> producer list \<times> consumer list) parser" where
  "parse_structor n pp pc pol =
     (let structor_kind = (if pol = Polarity_producer then ''constructor'' else ''destructor'');
          structor_ids = (if pol = Polarity_producer then constructor_ids else destructor_ids)
      in
     and_then (effect skip_whitespace) (\<lambda>u.
     and_then (read_state current_line) (\<lambda>start_line.
     and_then (expect CHR ''('' structor_kind start_line) (\<lambda>u.
     and_then (returning (read_word SIZE_MAX)) (\<lambda>name.
       if name = [] then
         and_then (on_input peek) (\<lambda>c.
           throw_here (\<lambda>line. Unexpected_char_exception line start_line structor_kind c))
       else
         and_then (read_state (\<lambda>p. structor_ids p name)) (\<lambda>found.
           case found of
             None \<Rightarrow>
               throw_here (\<lambda>line.
                 Unknown_name_exception line start_line structor_kind structor_kind name)
           | Some structor_id \<Rightarrow>
               and_then (read_state (\<lambda>p. structor_arity p structor_id)) (\<lambda>found_info.
                 case found_info of
                   None \<Rightarrow> throw Std_out_of_range_at
                 | Some info \<Rightarrow>
                     and_then (if info_arity info > 0 then parse_list n pp ''argument''
                               else succeed []) (\<lambda>args.
                       if length args \<noteq> info_arity info then
                         throw_here (\<lambda>line.
                           Arity_mismatch_exception line start_line structor_kind name
                             Polarity_producer (info_arity info) (length args))
                       else
                         and_then (if info_coarity info > 0 then parse_list n pc ''coargument''
                                   else succeed []) (\<lambda>coargs.
                           if length coargs \<noteq> info_coarity info then
                             throw_here (\<lambda>line.
                               Arity_mismatch_exception line start_line structor_kind name
                                 Polarity_consumer (info_coarity info) (length coargs))
                           else
                             and_then (expect CHR '')'' structor_kind start_line) (\<lambda>u.
                               succeed (structor_id, name, args, coargs)))))))))))"

definition parse_constructor ::
  "nat \<Rightarrow> producer parser \<Rightarrow> consumer parser \<Rightarrow> producer parser" where
  "parse_constructor n pp pc =
     and_then (parse_structor n pp pc Polarity_producer) (\<lambda>(structor_id, name, args, coargs).
       succeed (Constructor_prod structor_id name args coargs None None))"

definition parse_destructor ::
  "nat \<Rightarrow> producer parser \<Rightarrow> consumer parser \<Rightarrow> consumer parser" where
  "parse_destructor n pp pc =
     and_then (parse_structor n pp pc Polarity_consumer) (\<lambda>(structor_id, name, args, coargs).
       succeed (Destructor_cons structor_id name args coargs None))"

definition parse_clause :: "nat \<Rightarrow> statement parser \<Rightarrow> Syntax_polarity \<Rightarrow> clause parser" where
  "parse_clause n ps pol =
     (let clause_kind = (if pol = Polarity_producer then ''cocase clause'' else ''case clause'');
          structor_kind = (if pol = Polarity_producer then ''destructor'' else ''constructor'');
          structor_ids = (if pol = Polarity_producer then destructor_ids else constructor_ids)
      in
     and_then (effect skip_whitespace) (\<lambda>u.
     and_then (read_state current_line) (\<lambda>start_line.
     and_then (expect CHR ''('' clause_kind start_line) (\<lambda>u.
     and_then (returning (read_word SIZE_MAX)) (\<lambda>name.
       if name = [] then
         and_then (on_input peek) (\<lambda>c.
           throw_here (\<lambda>line. Unexpected_char_exception line start_line clause_kind c))
       else
         and_then (read_state (\<lambda>p. structor_ids p name)) (\<lambda>found.
           case found of
             None \<Rightarrow>
               throw_here (\<lambda>line.
                 Unknown_name_exception line start_line clause_kind structor_kind name)
           | Some structor_id \<Rightarrow>
               and_then (read_state (\<lambda>p. structor_arity p structor_id)) (\<lambda>found_info.
                 case found_info of
                   None \<Rightarrow> throw Std_out_of_range_at
                 | Some info \<Rightarrow>
                     and_then (if info_arity info > 0
                               then parse_list n (returning (read_word SIZE_MAX)) ''parameter''
                               else succeed []) (\<lambda>names.
                       if length names \<noteq> info_arity info then
                         throw_here (\<lambda>line.
                           Arity_mismatch_exception line start_line clause_kind name
                             Polarity_producer (info_arity info) (length names))
                       else
                         and_then (if info_coarity info > 0
                                   then parse_list n (returning (read_word SIZE_MAX)) ''coparameter''
                                   else succeed []) (\<lambda>conames.
                           if length conames \<noteq> info_coarity info then
                             throw_here (\<lambda>line.
                               Arity_mismatch_exception line start_line clause_kind name
                                 Polarity_consumer (info_coarity info) (length conames))
                           else
                             and_then (returning (\<lambda>(p, input).
                               case push_vars names p of (ids, p') \<Rightarrow> (ids, p', input))) (\<lambda>ids.
                             and_then (returning (\<lambda>(p, input).
                               case push_covars conames p of (ids, p') \<Rightarrow> (ids, p', input)))
                               (\<lambda>coids.
                             and_then ps (\<lambda>bdy.
                             and_then (update_state (pop_vars names)) (\<lambda>u.
                             and_then (update_state (pop_covars conames)) (\<lambda>u.
                             and_then (expect CHR '')'' ''clause'' start_line) (\<lambda>u.
                               succeed (Clause structor_id name names conames ids coids bdy)
                             )))))))))))))))"

text \<open>
  The second half of \<open>parse_clauses\<close>: the loop that erases each clause's structor from
  the expected set stops at the first clause whose structor is not in it (any more).
\<close>

fun erase_structors :: "nat set \<Rightarrow> clause list \<Rightarrow> clause + nat set" where
  "erase_structors expected_structors [] = Inr expected_structors"
| "erase_structors expected_structors (c # cs) =
     (if clause_abstraction_id c \<notin> expected_structors then Inl c
      else erase_structors (expected_structors - {clause_abstraction_id c}) cs)"

definition validate_clauses ::
  "Typing_context \<Rightarrow> nat \<Rightarrow> nat \<Rightarrow> Syntax_polarity \<Rightarrow> clause list \<Rightarrow> parse_error + clause list" where
  "validate_clauses ctx line start_line pol clauses =
     (let expression_kind =
            (if pol = Polarity_producer then ''cocase expression'' else ''case expression'')
      in if clauses = [] then
           Inl (Parse_exception line start_line expression_kind ''empty clause list'')
         else
           (case structors_like ctx (clause_abstraction_id (hd clauses)) of
              Inl e \<Rightarrow> Inl (Ctx_exception e)
            | Inr expected_structors \<Rightarrow>
                (case erase_structors expected_structors clauses of
                   Inl c \<Rightarrow>
                     Inl (Parse_exception line start_line expression_kind
                            (''Duplicate or mismatched structor: '' @ structor_name c))
                 | Inr remaining \<Rightarrow>
                     if remaining \<noteq> {} then
                       Inl (Parse_exception line start_line expression_kind
                              ''incomplete clause list'')
                     else Inr clauses)))"

definition parse_clauses ::
  "nat \<Rightarrow> statement parser \<Rightarrow> Syntax_polarity \<Rightarrow> nat \<Rightarrow> clause list parser" where
  "parse_clauses n ps pol start_line =
     and_then (parse_list n (parse_clause n ps pol)
                 (if pol = Polarity_producer then ''cocase clause'' else ''case clause''))
       (\<lambda>clauses.
     and_then (read_state parser_ctx) (\<lambda>ctx.
     and_then (read_state current_line) (\<lambda>line.
       case validate_clauses ctx line start_line pol clauses of
         Inl e \<Rightarrow> throw e
       | Inr cs \<Rightarrow> succeed cs)))"

definition parse_cocase :: "nat \<Rightarrow> statement parser \<Rightarrow> producer parser" where
  "parse_cocase n ps =
     and_then (effect skip_whitespace) (\<lambda>u.
     and_then (read_state current_line) (\<lambda>start_line.
     and_then (expect CHR ''('' ''cocase expression'' start_line) (\<lambda>u.
     and_then (returning (read_word SIZE_MAX)) (\<lambda>keyword.
       if keyword \<noteq> ''cocase'' then
         and_then (word_cause keyword) (\<lambda>cause.
           throw_here (\<lambda>line.
             Unexpected_char_exception line start_line ''cocase expression'' cause))
       else
         and_then (parse_clauses n ps Polarity_producer start_line) (\<lambda>clauses.
         and_then (expect CHR '')'' ''cocase expression'' start_line) (\<lambda>u.
           succeed (Cocase_prod clauses None)))))))"

definition parse_covariable :: "consumer parser" where
  "parse_covariable =
     and_then (returning (read_word SIZE_MAX)) (\<lambda>name.
       if name = [] then
         and_then (on_input peek) (\<lambda>c.
           throw_here (\<lambda>line. Unexpected_char_exception line line ''covariable'' c))
       else
         and_then (read_state (\<lambda>p. covar_ctx p name)) (\<lambda>stack.
           if stack = [] then
             throw_here (\<lambda>line.
               Unknown_name_exception line line ''covariable'' ''covariable'' name)
           else succeed (Covariable_cons (last stack) name None)))"

definition parse_mu_c :: "statement parser \<Rightarrow> consumer parser" where
  "parse_mu_c ps =
     and_then (effect skip_whitespace) (\<lambda>u.
     and_then (read_state current_line) (\<lambda>start_line.
     and_then (expect CHR ''('' AST_mu_c start_line) (\<lambda>u.
     and_then (returning (read_word SIZE_MAX)) (\<lambda>keyword.
       if keyword \<noteq> keyword_mu_c_ascii \<and> keyword \<noteq> keyword_mu_c_unicode then
         and_then (word_cause keyword) (\<lambda>cause.
           throw_here (\<lambda>line. Unexpected_char_exception line start_line AST_mu_c cause))
       else
         and_then (effect skip_whitespace) (\<lambda>u.
         and_then (returning (read_word SIZE_MAX)) (\<lambda>arg_name.
           if arg_name = [] then
             and_then (on_input peek) (\<lambda>c.
               throw_here (\<lambda>line. Unexpected_char_exception line start_line AST_mu_c c))
           else
             and_then (read_state parser_n_vars) (\<lambda>arg_id.
             and_then (update_state (\<lambda>p.
               p\<lparr>parser_n_vars := arg_id + 1,
                  var_ctx := (var_ctx p)(arg_name := var_ctx p arg_name @ [arg_id])\<rparr>))
               (\<lambda>u.
             and_then ps (\<lambda>bdy.
             and_then (update_state (\<lambda>p.
               p\<lparr>var_ctx := (var_ctx p)(arg_name := butlast (var_ctx p arg_name))\<rparr>))
               (\<lambda>u.
             and_then (expect CHR '')'' AST_mu_c start_line) (\<lambda>u.
             succeed (Mu_cons arg_id arg_name bdy None))))))))))))"

definition parse_case :: "nat \<Rightarrow> statement parser \<Rightarrow> consumer parser" where
  "parse_case n ps =
     and_then (effect skip_whitespace) (\<lambda>u.
     and_then (read_state current_line) (\<lambda>start_line.
     and_then (expect CHR ''('' ''case expression'' start_line) (\<lambda>u.
     and_then (returning (read_word SIZE_MAX)) (\<lambda>keyword.
       if keyword \<noteq> ''case'' then
         and_then (word_cause keyword) (\<lambda>cause.
           throw_here (\<lambda>line.
             Unexpected_char_exception line start_line ''case expression'' cause))
       else
         and_then (parse_clauses n ps Polarity_consumer start_line) (\<lambda>clauses.
         and_then (expect CHR '')'' ''case expression'' start_line) (\<lambda>u.
           succeed (Case_cons clauses None)))))))"

definition parse_end :: "consumer parser" where
  "parse_end =
     and_then (effect skip_whitespace) (\<lambda>u.
     and_then (returning (read_word SIZE_MAX)) (\<lambda>keyword.
       if keyword \<noteq> keyword_end then
         and_then (word_cause keyword) (\<lambda>cause.
           throw_here (\<lambda>line.
             Unexpected_char_exception line line ''end of computation'' cause))
       else succeed (End_cons None)))"

definition parse_arithmetic :: "producer parser \<Rightarrow> consumer parser \<Rightarrow> statement parser" where
  "parse_arithmetic pp pc =
     and_then (effect skip_whitespace) (\<lambda>u.
     and_then (read_state current_line) (\<lambda>start_line.
     and_then (expect CHR ''('' ''arithmetic statement'' start_line) (\<lambda>u.
     and_then (on_input get) (\<lambda>op_symbol.
       case (if op_symbol = of_char CHR ''+'' then Some Add
             else if op_symbol = of_char CHR ''-'' then Some Sub
             else if op_symbol = of_char CHR ''*'' then Some Mul
             else if op_symbol = of_char CHR ''/'' then Some Div
             else if op_symbol = of_char CHR ''%'' then Some Mod
             else None) of
         None \<Rightarrow>
           throw_here (\<lambda>line.
             Unexpected_char_exception line start_line ''arithmetic statement'' op_symbol)
       | Some op \<Rightarrow>
           and_then pp (\<lambda>left.
           and_then pp (\<lambda>right.
           and_then pc (\<lambda>after.
           and_then (expect CHR '')'' ''arithmetic statement'' start_line) (\<lambda>u.
             succeed (Arithmetic_stmt op left right after)))))))))"

definition parse_ifz :: "producer parser \<Rightarrow> statement parser \<Rightarrow> statement parser" where
  "parse_ifz pp ps =
     and_then (effect skip_whitespace) (\<lambda>u.
     and_then (read_state current_line) (\<lambda>start_line.
     and_then (expect CHR ''('' ''if-zero statement'' start_line) (\<lambda>u.
     and_then (returning (read_word SIZE_MAX)) (\<lambda>keyword.
       if keyword \<noteq> ''ifz'' then
         and_then (word_cause keyword) (\<lambda>cause.
           throw_here (\<lambda>line.
             Unexpected_char_exception line start_line ''if-zero statement'' cause))
       else
         and_then pp (\<lambda>condition.
         and_then ps (\<lambda>if_zero.
         and_then ps (\<lambda>if_other.
         and_then (expect CHR '')'' ''if-zero statement'' start_line) (\<lambda>u.
           succeed (Ifz_stmt condition if_zero if_other)))))))))"

definition parse_cut :: "producer parser \<Rightarrow> consumer parser \<Rightarrow> statement parser" where
  "parse_cut pp pc =
     and_then (effect skip_whitespace) (\<lambda>u.
     and_then (read_state current_line) (\<lambda>start_line.
     and_then (expect CHR ''['' ''cut statement'' start_line) (\<lambda>u.
     and_then pp (\<lambda>prd.
     and_then pc (\<lambda>cns.
     and_then (expect CHR '']'' ''cut statement'' start_line) (\<lambda>u.
       succeed (Cut_stmt prd cns)))))))"

definition parse_call ::
  "nat \<Rightarrow> producer parser \<Rightarrow> consumer parser \<Rightarrow> statement parser" where
  "parse_call n pp pc =
     and_then (effect skip_whitespace) (\<lambda>u.
     and_then (read_state current_line) (\<lambda>start_line.
     and_then (expect CHR ''('' ''call statement'' start_line) (\<lambda>u.
     and_then (returning (read_word SIZE_MAX)) (\<lambda>name.
       if name = [] then
         and_then (on_input peek) (\<lambda>c.
           throw_here (\<lambda>line. Unexpected_char_exception line start_line ''call statement'' c))
       else
         and_then (read_state (\<lambda>p. def_ids p name)) (\<lambda>found.
           case found of
             None \<Rightarrow>
               throw_here (\<lambda>line.
                 Unknown_name_exception line start_line ''call statement'' ''definition'' name)
           | Some def_id \<Rightarrow>
               and_then (read_state (\<lambda>p. def_arity p def_id)) (\<lambda>found_info.
                 case found_info of
                   None \<Rightarrow> throw Std_out_of_range_at
                 | Some info \<Rightarrow>
                     and_then (parse_list n pp ''producer'') (\<lambda>args.
                     and_then (parse_list n pc ''consumer'') (\<lambda>coargs.
                       if length args \<noteq> info_arity info then
                         throw_here (\<lambda>line.
                           Arity_mismatch_exception line start_line ''call statement'' name
                             Polarity_producer (info_arity info) (length args))
                       else if length coargs \<noteq> info_coarity info then
                         throw_here (\<lambda>line.
                           Arity_mismatch_exception line start_line ''call statement'' name
                             Polarity_consumer (info_coarity info) (length coargs))
                       else
                         and_then (expect CHR '')'' ''call statement'' start_line) (\<lambda>u.
                           succeed (Call_stmt def_id name args coargs))))))))))"

text \<open>The three dispatching functions, one level of the recursion each.\<close>

definition parse_producer_at ::
  "nat \<Rightarrow> producer parser \<Rightarrow> consumer parser \<Rightarrow> statement parser \<Rightarrow> producer parser" where
  "parse_producer_at n pp pc ps =
     and_then (effect skip_whitespace) (\<lambda>u.
     and_then (read_state current_line) (\<lambda>start_line.
     and_then (on_input peek) (\<lambda>nxt.
       if isalpha nxt then parse_variable
       else if isdigit nxt \<or> nxt = of_char CHR ''-'' then parse_value
       else
         and_then (expect CHR ''('' ''producer'' start_line) (\<lambda>u.
         and_then (returning (peek_word 6)) (\<lambda>word.
         and_then (unconsume CHR ''('') (\<lambda>u.
           if word = keyword_mu_p_ascii \<or> word = keyword_mu_p_unicode then parse_mu_p ps
           else if word = ''cocase'' then parse_cocase n ps
           else parse_constructor n pp pc))))))"

definition parse_consumer_at ::
  "nat \<Rightarrow> producer parser \<Rightarrow> consumer parser \<Rightarrow> statement parser \<Rightarrow> consumer parser" where
  "parse_consumer_at n pp pc ps =
     and_then (effect skip_whitespace) (\<lambda>u.
     and_then (read_state current_line) (\<lambda>start_line.
     and_then (on_input peek) (\<lambda>nxt.
       if isalpha nxt then parse_covariable
       else if nxt = of_char (hd keyword_end) then parse_end
       else
         and_then (expect CHR ''('' ''consumer'' start_line) (\<lambda>u.
         and_then (returning (peek_word 5)) (\<lambda>word.
         and_then (unconsume CHR ''('') (\<lambda>u.
           if word = keyword_mu_c_ascii \<or> word = keyword_mu_c_unicode then parse_mu_c ps
           else if word = ''case'' then parse_case n ps
           else parse_destructor n pp pc))))))"

definition parse_statement_at ::
  "nat \<Rightarrow> producer parser \<Rightarrow> consumer parser \<Rightarrow> statement parser \<Rightarrow> statement parser" where
  "parse_statement_at n pp pc ps =
     and_then (effect skip_whitespace) (\<lambda>u.
     and_then (read_state current_line) (\<lambda>start_line.
     and_then (on_input peek) (\<lambda>c.
       if c = of_char CHR ''['' then parse_cut pp pc
       else
         and_then (expect CHR ''('' ''statement'' start_line) (\<lambda>u.
         and_then (on_input peek) (\<lambda>nxt.
           if nxt = of_char CHR ''+'' \<or> nxt = of_char CHR ''-'' \<or> nxt = of_char CHR ''*''
              \<or> nxt = of_char CHR ''/'' \<or> nxt = of_char CHR ''%''
           then and_then (unconsume CHR ''('') (\<lambda>u. parse_arithmetic pp pc)
           else if isalpha nxt then
             and_then (returning (peek_word 3)) (\<lambda>word.
             and_then (unconsume CHR ''('') (\<lambda>u.
               if word = ''ifz'' then parse_ifz pp ps else parse_call n pp pc))
           else
             throw_here (\<lambda>line.
               Unexpected_char_exception line start_line ''statement'' nxt))))))"

primrec parsers :: "nat \<Rightarrow> producer parser \<times> consumer parser \<times> statement parser" where
  "parsers 0 = (diverge, diverge, diverge)"
| "parsers (Suc n) =
     (case parsers n of
        (pp, pc, ps) \<Rightarrow>
          (parse_producer_at n pp pc ps, parse_consumer_at n pp pc ps,
           parse_statement_at n pp pc ps))"

definition parse_producer :: "nat \<Rightarrow> producer parser" where
  "parse_producer n = fst (parsers n)"

definition parse_consumer :: "nat \<Rightarrow> consumer parser" where
  "parse_consumer n = fst (snd (parsers n))"

definition parse_statement :: "nat \<Rightarrow> statement parser" where
  "parse_statement n = snd (snd (parsers n))"

subsection \<open>Definitions and programs\<close>

definition parse_definition :: "nat \<Rightarrow> Definition parser" where
  "parse_definition n =
     and_then (effect skip_whitespace) (\<lambda>u.
     and_then (read_state current_line) (\<lambda>start_line.
     and_then (expect CHR ''('' ''definition'' start_line) (\<lambda>u.
     and_then (returning (read_word SIZE_MAX)) (\<lambda>keyword.
       if keyword \<noteq> ''def'' then
         and_then (word_cause keyword) (\<lambda>cause.
           throw_here (\<lambda>line. Unexpected_char_exception line start_line ''definition'' cause))
       else
         and_then (returning (read_word SIZE_MAX)) (\<lambda>name.
         and_then (read_state (\<lambda>p. def_ids p name)) (\<lambda>found.
           if name = [] then
             and_then (on_input peek) (\<lambda>c.
               throw_here (\<lambda>line. Unexpected_char_exception line start_line ''definition'' c))
           else if found \<noteq> None then
             throw_here (\<lambda>line.
               Parse_exception line start_line ''definition'' (''Repeated definition of '' @ name))
           else if name = ''ifz'' then
             throw_here (\<lambda>line.
               Parse_exception line start_line ''definition'' ''ifz is a reserved name'')
           else
             and_then (read_state n_defs) (\<lambda>def_id.
             and_then (update_state (\<lambda>p.
               p\<lparr>n_defs := def_id + 1, def_ids := (def_ids p)(name \<mapsto> def_id)\<rparr>)) (\<lambda>u.
             and_then (parse_list n (returning (read_word SIZE_MAX)) ''parameter'') (\<lambda>names.
             and_then (parse_list n (returning (read_word SIZE_MAX)) ''coparameter'') (\<lambda>conames.
             and_then (returning (\<lambda>(p, input).
               case push_vars names p of (ids, p') \<Rightarrow> (ids, p', input))) (\<lambda>ids.
             and_then (returning (\<lambda>(p, input).
               case push_covars conames p of (ids, p') \<Rightarrow> (ids, p', input))) (\<lambda>coids.
             and_then (update_state (\<lambda>p.
               if def_id \<in> dom (def_arity p) then p
               else p\<lparr>def_arity := (def_arity p)(def_id \<mapsto>
                        \<lparr>info_arity = length ids, info_coarity = length coids\<rparr>)\<rparr>)) (\<lambda>u.
             and_then (returning (\<lambda>(p, input).
               case add_definition (parser_ctx p) name (length ids) (length coids) of
                 (aid, ctx') \<Rightarrow> (aid, p\<lparr>parser_ctx := ctx'\<rparr>, input))) (\<lambda>aid.
             and_then (parse_statement n) (\<lambda>bdy.
             and_then (update_state (pop_vars names)) (\<lambda>u.
             and_then (update_state (pop_covars conames)) (\<lambda>u.
             and_then (expect CHR '')'' ''definition'' start_line) (\<lambda>u.
               succeed \<lparr>abstraction_id = aid, definition_name = name, arg_names = names,
                        coarg_names = conames, arg_ids = ids, coarg_ids = coids,
                        body = bdy\<rparr>))))))))))))))))))"

text \<open>The loop of \<open>parse_program\<close>; it is left at the end of the input, before the bound
  on the number of iterations is looked at.\<close>

primrec parse_program_loop :: "nat \<Rightarrow> nat \<Rightarrow> Program \<Rightarrow> Program parser" where
  "parse_program_loop 0 n program =
     and_then at_eof (\<lambda>e. if e then succeed program else diverge)"
| "parse_program_loop (Suc k) n program =
     and_then at_eof (\<lambda>e.
       if e then succeed program
       else
         and_then (on_input peek) (\<lambda>c.
           if c = of_char CHR ''['' then
             and_then (parse_cut (parse_producer n) (parse_consumer n)) (\<lambda>stmt.
             and_then (effect skip_whitespace) (\<lambda>u.
               parse_program_loop k n (program\<lparr>statements := statements program @ [stmt]\<rparr>)))
           else
             and_then (read_state current_line) (\<lambda>line.
             and_then (expect CHR ''('' ''definition or statement'' line) (\<lambda>u.
             and_then (returning (peek_word 3)) (\<lambda>word.
             and_then (unconsume CHR ''('') (\<lambda>u.
               if word = ''def'' then
                 and_then (parse_definition n) (\<lambda>d.
                 and_then (effect skip_whitespace) (\<lambda>u.
                   parse_program_loop k n
                     (program\<lparr>definitions := definitions program @ [d]\<rparr>)))
               else
                 and_then (parse_statement n) (\<lambda>stmt.
                 and_then (effect skip_whitespace) (\<lambda>u.
                   parse_program_loop k n
                     (program\<lparr>statements := statements program @ [stmt]\<rparr>)))))))))"

definition parse_program :: "nat \<Rightarrow> Program parser" where
  "parse_program n =
     and_then (effect skip_whitespace) (\<lambda>u.
       parse_program_loop n n \<lparr>definitions = [], statements = []\<rparr>)"

section \<open>Typer (Typer.cpp)\<close>

text \<open>
  \<open>Syntax_ptr\<close> points at the syntax element a type error is reported for; the model
  keeps the element as it was handed to \<open>check\<close>.
\<close>

datatype syntax_ptr =
    Producer_ptr producer
  | Consumer_ptr consumer
  | Statement_ptr statement
  | Clause_ptr clause
  | Definition_ptr Definition

text \<open>
  \<open>Single_typing_exception\<close> carries the \<open>Unification_exception\<close> (kind and the two
  handles) and the context; \<open>Multiple_typing_exception\<close> the single ones that
  \<open>type_program\<close> collected. The other constructors are what leaves the typer without
  being a typing exception: a failure inside the typing context, a failed \<open>assert\<close>,
  the \<open>std::out_of_range\<close> of \<open>vector::at\<close> and the \<open>std::bad_optional_access\<close> of
  \<open>optional::value\<close>.
\<close>

datatype typer_error =
    Single_typing_exception unification_kind nat nat syntax_ptr
  | Multiple_typing_exception "typer_error list"
  | Typer_ctx_error ctx_error
  | Typer_assertion_failed
  | Typer_out_of_range
  | Typer_bad_optional_access

record Typer =
  typer_ctx :: Typing_context
  typer_definitions :: "Definition list"
  int_type :: nat
  var_types :: "nat \<rightharpoonup> nat"
  covar_types :: "nat \<rightharpoonup> nat"
  current_definition :: "nat option"

definition Typer_new :: "Typing_context \<Rightarrow> Definition list \<Rightarrow> ctx_error + Typer" where
  "Typer_new ctx defs =
     (case get_primitive_prototype ctx 0 of
        Inl e \<Rightarrow> Inl e
      | Inr h \<Rightarrow>
          Inr \<lparr>typer_ctx = ctx, typer_definitions = defs, int_type = h,
               var_types = Map.empty, covar_types = Map.empty, current_definition = None\<rparr>)"

text \<open>
  A member function of the typer either throws or returns; in both cases the typer and
  the typing context stay changed, and \<open>type_program\<close> goes on with them after it has
  caught a \<open>Single_typing_exception\<close>. \<open>None\<close> is a call of \<open>unify\<close> or \<open>instantiate\<close>
  that has not returned within the bound \<open>depth\<close>.
\<close>

type_synonym 'a typing = "Typer \<Rightarrow> ((typer_error + 'a) \<times> Typer) option"

definition typed :: "'a \<Rightarrow> 'a typing" where
  "typed x = (\<lambda>t. Some (Inr x, t))"

definition typer_throw :: "typer_error \<Rightarrow> 'a typing" where
  "typer_throw e = (\<lambda>t. Some (Inl e, t))"

definition typer_then :: "'a typing \<Rightarrow> ('a \<Rightarrow> 'b typing) \<Rightarrow> 'b typing" where
  "typer_then m f =
     (\<lambda>t. case m t of
             None \<Rightarrow> None
           | Some (Inl e, t') \<Rightarrow> Some (Inl e, t')
           | Some (Inr x, t') \<Rightarrow> f x t')"

definition typer_assert :: "bool \<Rightarrow> unit typing" where
  "typer_assert b = (if b then typed () else typer_throw Typer_assertion_failed)"

definition read_typer :: "(Typer \<Rightarrow> 'a) \<Rightarrow> 'a typing" where
  "read_typer f = (\<lambda>t. Some (Inr (f t), t))"

definition update_typer :: "(Typer \<Rightarrow> Typer) \<Rightarrow> unit typing" where
  "update_typer f = (\<lambda>t. Some (Inr (), f t))"

definition typer_fresh_type_variable :: "nat typing" where
  "typer_fresh_type_variable =
     (\<lambda>t. case fresh_type_variable (types (typer_ctx t)) of
             (h, ts) \<Rightarrow> Some (Inr h, t\<lparr>typer_ctx := (typer_ctx t)\<lparr>types := ts\<rparr>\<rparr>))"

definition fresh_var :: "nat \<Rightarrow> unit typing" where
  "fresh_var v =
     typer_then (read_typer var_types) (\<lambda>m.
     typer_then (typer_assert (v \<notin> dom m)) (\<lambda>u.
     typer_then typer_fresh_type_variable (\<lambda>h.
       update_typer (\<lambda>t. t\<lparr>var_types := (var_types t)(v \<mapsto> h)\<rparr>))))"

definition fresh_covar :: "nat \<Rightarrow> unit typing" where
  "fresh_covar c =
     typer_then (read_typer covar_types) (\<lambda>m.
     typer_then (typer_assert (c \<notin> dom m)) (\<lambda>u.
     typer_then typer_fresh_type_variable (\<lambda>h.
       update_typer (\<lambda>t. t\<lparr>covar_types := (covar_types t)(c \<mapsto> h)\<rparr>))))"

fun fresh_vars :: "nat list \<Rightarrow> unit typing" where
  "fresh_vars [] = typed ()"
| "fresh_vars (v # vs) = typer_then (fresh_var v) (\<lambda>u. fresh_vars vs)"

fun fresh_covars :: "nat list \<Rightarrow> unit typing" where
  "fresh_covars [] = typed ()"
| "fresh_covars (c # cs) = typer_then (fresh_covar c) (\<lambda>u. fresh_covars cs)"

text \<open>\<open>var_types[id]\<close>: \<open>operator[]\<close> of \<open>std::map\<close> adds the value-initialised handle
  (id 0) for an id that has no entry.\<close>

definition var_type :: "nat \<Rightarrow> nat typing" where
  "var_type v =
     (\<lambda>t. case var_types t v of
             Some h \<Rightarrow> Some (Inr h, t)
           | None \<Rightarrow> Some (Inr 0, t\<lparr>var_types := (var_types t)(v \<mapsto> 0)\<rparr>))"

definition covar_type :: "nat \<Rightarrow> nat typing" where
  "covar_type c =
     (\<lambda>t. case covar_types t c of
             Some h \<Rightarrow> Some (Inr h, t)
           | None \<Rightarrow> Some (Inr 0, t\<lparr>covar_types := (covar_types t)(c \<mapsto> 0)\<rparr>))"

definition try_unify :: "nat \<Rightarrow> nat \<Rightarrow> nat \<Rightarrow> syntax_ptr \<Rightarrow> unit typing" where
  "try_unify depth a b context =
     (\<lambda>t. case unify depth (typer_ctx t) a b of
             None \<Rightarrow> None
           | Some (Unified, ctx') \<Rightarrow> Some (Inr (), t\<lparr>typer_ctx := ctx'\<rparr>)
           | Some (Failed e, ctx') \<Rightarrow>
               (case e of
                  Unification_exception k x y \<Rightarrow>
                    Some (Inl (Single_typing_exception k x y context), t\<lparr>typer_ctx := ctx'\<rparr>)
                | _ \<Rightarrow> Some (Inl (Typer_ctx_error e), t\<lparr>typer_ctx := ctx'\<rparr>)))"

definition typer_instantiate :: "nat \<Rightarrow> nat \<Rightarrow> Abstraction typing" where
  "typer_instantiate depth aid =
     (\<lambda>t. case instantiate depth (typer_ctx t) aid of
             None \<Rightarrow> None
           | Some (Inl e) \<Rightarrow> Some (Inl (Typer_ctx_error e), t)
           | Some (Inr (instance, ctx')) \<Rightarrow> Some (Inr instance, t\<lparr>typer_ctx := ctx'\<rparr>))"

text \<open>The first statement of \<open>check_abstraction\<close>: the instance a use of the abstraction
  \<open>aid\<close> is checked against.\<close>

definition abstraction_instance :: "nat \<Rightarrow> nat \<Rightarrow> Abstraction typing" where
  "abstraction_instance depth aid =
     (\<lambda>t. if current_definition t = Some aid then
             (case get_abstraction_prototype (typer_ctx t) aid of
                Inl e \<Rightarrow> Some (Inl (Typer_ctx_error e), t)
              | Inr instance \<Rightarrow> Some (Inr instance, t))
           else typer_instantiate depth aid t)"

text \<open>The loops that unify the types of the bound (co)variables with the (co)argument
  types of the instance.\<close>

fun unify_vars :: "nat \<Rightarrow> nat list \<Rightarrow> nat list \<Rightarrow> syntax_ptr \<Rightarrow> unit typing" where
  "unify_vars depth (v # vs) (h # hs) context =
     typer_then (var_type v) (\<lambda>tv.
     typer_then (try_unify depth tv h context) (\<lambda>u. unify_vars depth vs hs context))"
| "unify_vars depth vs hs context = typed ()"

fun unify_covars :: "nat \<Rightarrow> nat list \<Rightarrow> nat list \<Rightarrow> syntax_ptr \<Rightarrow> unit typing" where
  "unify_covars depth (c # cs) (h # hs) context =
     typer_then (covar_type c) (\<lambda>tc.
     typer_then (try_unify depth tc h context) (\<lambda>u. unify_covars depth cs hs context))"
| "unify_covars depth cs hs context = typed ()"

text \<open>
  The \<open>check\<close> overloads. Each returns the syntax element with the type annotations it
  has written. \<open>check_abstraction\<close> returns the result type of the instance together
  with the checked arguments and coarguments.
\<close>

function (sequential) check_producer :: "nat \<Rightarrow> producer \<Rightarrow> nat \<Rightarrow> producer typing"
and check_consumer :: "nat \<Rightarrow> consumer \<Rightarrow> nat \<Rightarrow> consumer typing"
and check_statement :: "nat \<Rightarrow> statement \<Rightarrow> statement typing"
and check_clause :: "nat \<Rightarrow> clause \<Rightarrow> nat \<Rightarrow> clause typing"
and check_abstraction ::
  "nat \<Rightarrow> nat \<Rightarrow> producer list \<Rightarrow> consumer list \<Rightarrow> syntax_ptr \<Rightarrow> nat option \<Rightarrow>
   (nat option \<times> producer list \<times> consumer list) typing"
and check_producers :: "nat \<Rightarrow> producer list \<Rightarrow> nat list \<Rightarrow> producer list typing"
and check_consumers :: "nat \<Rightarrow> consumer list \<Rightarrow> nat list \<Rightarrow> consumer list typing"
and check_clauses :: "nat \<Rightarrow> clause list \<Rightarrow> nat \<Rightarrow> clause list typing"
where
  "check_producer depth (Variable_prod v name ty0) ty =
     typer_then (var_type v) (\<lambda>h.
     typer_then (try_unify depth ty h (Producer_ptr (Variable_prod v name ty0))) (\<lambda>u.
     typer_then (var_type v) (\<lambda>h'.
       typed (Variable_prod v name (Some h')))))"
| "check_producer depth (Value_prod n ty0) ty =
     typer_then (read_typer int_type) (\<lambda>h.
     typer_then (try_unify depth ty h (Producer_ptr (Value_prod n ty0))) (\<lambda>u.
       typed (Value_prod n (Some h))))"
| "check_producer depth (Mu_prod c name bdy ty0) ty =
     typer_then (fresh_covar c) (\<lambda>u.
     typer_then (covar_type c) (\<lambda>h.
     typer_then (try_unify depth ty h (Producer_ptr (Mu_prod c name bdy ty0))) (\<lambda>u.
     typer_then (check_statement depth bdy) (\<lambda>bdy'.
     typer_then (covar_type c) (\<lambda>h'.
       typed (Mu_prod c name bdy' (Some h')))))))"
| "check_producer depth (Constructor_prod aid name args coargs iv ty0) ty =
     typer_then (check_abstraction depth aid args coargs
                   (Producer_ptr (Constructor_prod aid name args coargs iv ty0)) (Some ty))
       (\<lambda>(r, args', coargs').
          case r of
            None \<Rightarrow> typer_throw Typer_bad_optional_access
          | Some h \<Rightarrow> typed (Constructor_prod aid name args' coargs' iv (Some h)))"
| "check_producer depth (Cocase_prod clauses ty0) ty =
     typer_then (check_clauses depth clauses ty) (\<lambda>clauses'.
       typed (Cocase_prod clauses' ty0))"
| "check_consumer depth (Covariable_cons c name ty0) ty =
     typer_then (covar_type c) (\<lambda>h.
     typer_then (try_unify depth ty h (Consumer_ptr (Covariable_cons c name ty0))) (\<lambda>u.
     typer_then (covar_type c) (\<lambda>h'.
       typed (Covariable_cons c name (Some h')))))"
| "check_consumer depth (Mu_cons v name bdy ty0) ty =
     typer_then (fresh_var v) (\<lambda>u.
     typer_then (var_type v) (\<lambda>h.
     typer_then (try_unify depth ty h (Consumer_ptr (Mu_cons v name bdy ty0))) (\<lambda>u.
     typer_then (check_statement depth bdy) (\<lambda>bdy'.
     typer_then (var_type v) (\<lambda>h'.
       typed (Mu_cons v name bdy' (Some h')))))))"
| "check_consumer depth (Destructor_cons aid name args coargs ty0) ty =
     typer_then (check_abstraction depth aid args coargs
                   (Consumer_ptr (Destructor_cons aid name args coargs ty0)) (Some ty))
       (\<lambda>(r, args', coargs').
          case r of
            None \<Rightarrow> typer_throw Typer_bad_optional_access
          | Some h \<Rightarrow> typed (Destructor_cons aid name args' coargs' (Some h)))"
| "check_consumer depth (Case_cons clauses ty0) ty =
     typer_then (check_clauses depth clauses ty) (\<lambda>clauses'.
       typed (Case_cons clauses' ty0))"
| "check_consumer depth (End_cons ty0) ty = typed (End_cons (Some ty))"
| "check_statement depth (Arithmetic_stmt opr left right after) =
     typer_then (read_typer int_type) (\<lambda>h.
     typer_then (check_producer depth left h) (\<lambda>left'.
     typer_then (check_producer depth right h) (\<lambda>right'.
     typer_then (check_consumer depth after h) (\<lambda>after'.
       typed (Arithmetic_stmt opr left' right' after')))))"
| "check_statement depth (Ifz_stmt condition if_zero if_other) =
     typer_then (read_typer int_type) (\<lambda>h.
     typer_then (check_producer depth condition h) (\<lambda>condition'.
     typer_then (check_statement depth if_zero) (\<lambda>if_zero'.
     typer_then (check_statement depth if_other) (\<lambda>if_other'.
       typed (Ifz_stmt condition' if_zero' if_other')))))"
| "check_statement depth (Cut_stmt prd cns) =
     typer_then typer_fresh_type_variable (\<lambda>cut_type.
     typer_then (check_producer depth prd cut_type) (\<lambda>prd'.
     typer_then (check_consumer depth cns cut_type) (\<lambda>cns'.
       typed (Cut_stmt prd' cns'))))"
| "check_statement depth (Call_stmt d name args coargs) =
     typer_then (read_typer typer_definitions) (\<lambda>defs.
       if d \<ge> length defs then typer_throw Typer_out_of_range
       else
         typer_then (check_abstraction depth (abstraction_id (defs ! d)) args coargs
                       (Statement_ptr (Call_stmt d name args coargs)) None)
           (\<lambda>(r, args', coargs'). typed (Call_stmt d name args' coargs')))"
| "check_clause depth (Clause aid name ans cns ids coids bdy) ty =
     typer_then (fresh_vars ids) (\<lambda>u.
     typer_then (fresh_covars coids) (\<lambda>u.
     typer_then (typer_instantiate depth aid) (\<lambda>instance.
     typer_then (typer_assert (abs_type instance \<noteq> None)) (\<lambda>u.
     typer_then (typer_assert (length (abs_args instance) = length ids)) (\<lambda>u.
     typer_then (typer_assert (length (abs_coargs instance) = length coids)) (\<lambda>u.
     typer_then (try_unify depth ty (the (abs_type instance))
                   (Clause_ptr (Clause aid name ans cns ids coids bdy))) (\<lambda>u.
     typer_then (unify_vars depth ids (abs_args instance)
                   (Clause_ptr (Clause aid name ans cns ids coids bdy))) (\<lambda>u.
     typer_then (unify_covars depth coids (abs_coargs instance)
                   (Clause_ptr (Clause aid name ans cns ids coids bdy))) (\<lambda>u.
     typer_then (check_statement depth bdy) (\<lambda>bdy'.
       typed (Clause aid name ans cns ids coids bdy')))))))))))"
| "check_abstraction depth aid args coargs context ty =
     typer_then (abstraction_instance depth aid) (\<lambda>instance.
     typer_then (typer_assert ((abs_type instance \<noteq> None) = (ty \<noteq> None))) (\<lambda>u.
     typer_then (typer_assert (length (abs_args instance) = length args)) (\<lambda>u.
     typer_then (typer_assert (length (abs_coargs instance) = length coargs)) (\<lambda>u.
     typer_then (check_producers depth args (abs_args instance)) (\<lambda>args'.
     typer_then (check_consumers depth coargs (abs_coargs instance)) (\<lambda>coargs'.
     typer_then (case ty of
                   None \<Rightarrow> typed ()
                 | Some t \<Rightarrow> try_unify depth t (the (abs_type instance)) context) (\<lambda>u.
       typed (abs_type instance, args', coargs'))))))))"
| "check_producers depth (p # ps) (h # hs) =
     typer_then (check_producer depth p h) (\<lambda>p'.
     typer_then (check_producers depth ps hs) (\<lambda>ps'. typed (p' # ps')))"
| "check_producers depth [] hs = typed []"
| "check_producers depth (p # ps) [] = typed (p # ps)"
| "check_consumers depth (c # cs) (h # hs) =
     typer_then (check_consumer depth c h) (\<lambda>c'.
     typer_then (check_consumers depth cs hs) (\<lambda>cs'. typed (c' # cs')))"
| "check_consumers depth [] hs = typed []"
| "check_consumers depth (c # cs) [] = typed (c # cs)"
| "check_clauses depth [] ty = typed []"
| "check_clauses depth (c # cs) ty =
     typer_then (check_clause depth c ty) (\<lambda>c'.
     typer_then (check_clauses depth cs ty) (\<lambda>cs'. typed (c' # cs')))"
  by pat_completeness auto
termination
  by (relation "measure (case_sum
         (case_sum (case_sum (\<lambda>(depth, p, ty). 3 * size p) (\<lambda>(depth, c, ty). 3 * size c))
                   (case_sum (\<lambda>(depth, s). 3 * size s) (\<lambda>(depth, c, ty). 3 * size c)))
         (case_sum (case_sum (\<lambda>(depth, aid, args, coargs, context, ty).
                                3 * (size_list size args + size_list size coargs) + 2)
                             (\<lambda>(depth, ps, hs). 3 * size_list size ps + 1))
                   (case_sum (\<lambda>(depth, cs, hs). 3 * size_list size cs + 1)
                             (\<lambda>(depth, cs, ty). 3 * size_list size cs + 1))))")
     auto

text \<open>
  \<open>check(Definition&)\<close> in two parts: what it does before it checks the body (it
  gives the parameters fresh type variables, notes the current definition and unifies
  the parameters' types with the signature), and the function itself.
\<close>

definition check_definition_prologue :: "nat \<Rightarrow> Definition \<Rightarrow> unit typing" where
  "check_definition_prologue depth d =
     typer_then (fresh_vars (arg_ids d)) (\<lambda>u.
     typer_then (fresh_covars (coarg_ids d)) (\<lambda>u.
     typer_then (read_typer (\<lambda>t. get_abstraction (typer_ctx t) (abstraction_id d))) (\<lambda>found.
       case found of
         Inl e \<Rightarrow> typer_throw (Typer_ctx_error e)
       | Inr abstraction \<Rightarrow>
           typer_then (update_typer (\<lambda>t. t\<lparr>current_definition := Some (abstraction_id d)\<rparr>))
             (\<lambda>u.
           typer_then (typer_assert (abs_type abstraction = None)) (\<lambda>u.
           typer_then (typer_assert (length (abs_args abstraction) = length (arg_ids d))) (\<lambda>u.
           typer_then (typer_assert (length (abs_coargs abstraction) = length (coarg_ids d)))
             (\<lambda>u.
           typer_then (unify_vars depth (arg_ids d) (abs_args abstraction) (Definition_ptr d))
             (\<lambda>u.
           unify_covars depth (coarg_ids d) (abs_coargs abstraction) (Definition_ptr d)))))))))"

definition check_definition :: "nat \<Rightarrow> Definition \<Rightarrow> Definition typing" where
  "check_definition depth d =
     typer_then (check_definition_prologue depth d) (\<lambda>u.
     typer_then (check_statement depth (body d)) (\<lambda>bdy'.
     typer_then (update_typer (\<lambda>t. t\<lparr>current_definition := None\<rparr>)) (\<lambda>u.
       typed (d\<lparr>body := bdy'\<rparr>))))"

text \<open>
  The two loops of \<open>type_program\<close>: a \<open>Single_typing_exception\<close> is caught and collected,
  and the loop goes on with the next element; anything else leaves the function.
\<close>

fun check_all ::
  "('a \<Rightarrow> 'a typing) \<Rightarrow> 'a list \<Rightarrow> typer_error list \<Rightarrow> ('a list \<times> typer_error list) typing" where
  "check_all chk [] errors = typed ([], errors)"
| "check_all chk (x # xs) errors =
     (\<lambda>t. case chk x t of
             None \<Rightarrow> None
           | Some (Inr x', t') \<Rightarrow>
               typer_then (check_all chk xs errors) (\<lambda>(xs', errors'). typed (x' # xs', errors')) t'
           | Some (Inl e, t') \<Rightarrow>
               (case e of
                  Single_typing_exception k a b context \<Rightarrow>
                    typer_then (check_all chk xs (errors @ [e]))
                      (\<lambda>(xs', errors'). typed (x # xs', errors')) t'
                | _ \<Rightarrow> Some (Inl e, t')))"

definition type_program ::
  "nat \<Rightarrow> Program \<Rightarrow> Typing_context \<Rightarrow> ((typer_error + Program) \<times> Typing_context) option" where
  "type_program depth program ctx =
     (case Typer_new ctx (definitions program) of
        Inl e \<Rightarrow> Some (Inl (Typer_ctx_error e), ctx)
      | Inr typer \<Rightarrow>
          (case typer_then (check_all (check_definition depth) (definitions program) [])
                  (\<lambda>(defs', errors1).
                     typer_then (check_all (check_statement depth) (statements program) errors1)
                       (\<lambda>(stmts', errors2).
                          if errors2 \<noteq> [] then typer_throw (Multiple_typing_exception errors2)
                          else typed \<lparr>definitions = defs', statements = stmts'\<rparr>)) typer of
             None \<Rightarrow> None
           | Some (r, typer') \<Rightarrow> Some (r, typer_ctx typer')))"

section \<open>The program (Lammm.cpp)\<close>

text \<open>
  \<open>main\<close> reads the program from standard input and returns 1, 2 or 3 when parsing,
  typing or running throws a \<open>lammm::Exception\<close>, and 0 otherwise. An exception of
  another class, a failed \<open>assert\<close> and undefined behaviour end the process
  abnormally. The output is not modelled. The bound \<open>n\<close> is the one of the parser and
  of the typing context; \<open>None\<close> is a run that does not end within it.
\<close>

datatype exit_status = Exit_code nat | Abnormal_termination

fun is_parse_exception :: "parse_error \<Rightarrow> bool" where
  "is_parse_exception (Parse_exception l1 l2 c e) = True"
| "is_parse_exception (Unexpected_char_exception l1 l2 c x) = True"
| "is_parse_exception (Unknown_name_exception l1 l2 c k n) = True"
| "is_parse_exception (Arity_mismatch_exception l1 l2 c n p e a) = True"
| "is_parse_exception e = False"

fun is_typing_exception :: "typer_error \<Rightarrow> bool" where
  "is_typing_exception (Single_typing_exception k a b c) = True"
| "is_typing_exception (Multiple_typing_exception es) = True"
| "is_typing_exception (Typer_ctx_error (Unification_exception k a b)) = True"
| "is_typing_exception e = False"

fun is_interpreter_exception :: "interp_error \<Rightarrow> bool" where
  "is_interpreter_exception Already_run = True"
| "is_interpreter_exception (Stuck_computation s) = True"
| "is_interpreter_exception e = False"

definition main :: "nat \<Rightarrow> string \<Rightarrow> exit_status option" where
  "main n stdin =
     (case default_typing_context of
        Inl e \<Rightarrow> Some Abnormal_termination
      | Inr ctx \<Rightarrow>
          (case parse_program n (Parser_new ctx, istream_of stdin) of
             None \<Rightarrow> None
           | Some (Inl e) \<Rightarrow>
               Some (if is_parse_exception e then Exit_code 1 else Abnormal_termination)
           | Some (Inr (program, parser, input)) \<Rightarrow>
               (case type_program n program (parser_ctx parser) of
                  None \<Rightarrow> None
                | Some (Inl e, ctx') \<Rightarrow>
                    Some (if is_typing_exception e then Exit_code 2 else Abnormal_termination)
                | Some (Inr typed_program, ctx') \<Rightarrow>
                    (case run (Interpreter_new (parser_n_vars parser) (parser_n_covars parser)
                                 typed_program) of
                       None \<Rightarrow> None
                     | Some (Inl e, i) \<Rightarrow>
                         Some (if is_interpreter_exception e then Exit_code 3
                               else Abnormal_termination)
                     | Some (Inr results, i) \<Rightarrow> Some (Exit_code 0)))))"
section \<open>Notions of the specification\<close>

subsection \<open>Values and the memoised flag\<close>

text \<open>
  The value predicate in the words of the specification: a producer is a value iff it is
  an integer literal, a cocase, or a constructor all of whose arguments are values
  (coarguments do not count). It does not look at the memoised flag.
\<close>

fun is_value_spec :: "producer \<Rightarrow> bool" where
  "is_value_spec (Value_prod v t) = True"
| "is_value_spec (Cocase_prod clauses t) = True"
| "is_value_spec (Constructor_prod a n args coargs iv t) = list_all is_value_spec args"
| "is_value_spec (Variable_prod x n t) = False"
| "is_value_spec (Mu_prod c n s t) = False"

text \<open>
  \<open>flags_ok\<close>: every memoised flag that is present, anywhere in the node, equals the
  value predicate of its constructor.
\<close>

fun flags_ok_prod :: "producer \<Rightarrow> bool"
  and flags_ok_cons :: "consumer \<Rightarrow> bool"
  and flags_ok_stmt :: "statement \<Rightarrow> bool"
  and flags_ok_clause :: "clause \<Rightarrow> bool"
where
  "flags_ok_prod (Variable_prod x n t) = True"
| "flags_ok_prod (Value_prod v t) = True"
| "flags_ok_prod (Mu_prod c n s t) = flags_ok_stmt s"
| "flags_ok_prod (Constructor_prod a n args coargs iv t) =
     (list_all flags_ok_prod args \<and> list_all flags_ok_cons coargs \<and>
      (case iv of None \<Rightarrow> True | Some b \<Rightarrow> b = list_all is_value_spec args))"
| "flags_ok_prod (Cocase_prod clauses t) = list_all flags_ok_clause clauses"
| "flags_ok_cons (Covariable_cons c n t) = True"
| "flags_ok_cons (Mu_cons x n s t) = flags_ok_stmt s"
| "flags_ok_cons (Destructor_cons a n args coargs t) =
     (list_all flags_ok_prod args \<and> list_all flags_ok_cons coargs)"
| "flags_ok_cons (Case_cons clauses t) = list_all flags_ok_clause clauses"
| "flags_ok_cons (End_cons t) = True"
| "flags_ok_stmt (Arithmetic_stmt op l r after) =
     (flags_ok_prod l \<and> flags_ok_prod r \<and> flags_ok_cons after)"
| "flags_ok_stmt (Ifz_stmt c z other) =
     (flags_ok_prod c \<and> flags_ok_stmt z \<and> flags_ok_stmt other)"
| "flags_ok_stmt (Cut_stmt p c) = (flags_ok_prod p \<and> flags_ok_cons c)"
| "flags_ok_stmt (Call_stmt d n args coargs) =
     (list_all flags_ok_prod args \<and> list_all flags_ok_cons coargs)"
| "flags_ok_clause (Clause a n ans cns ids coids s) = flags_ok_stmt s"

fun flags_ok_result :: "step_result \<Rightarrow> bool" where
  "flags_ok_result (Result_producer p) = flags_ok_prod p"
| "flags_ok_result (Next_statement s) = flags_ok_stmt s"

text \<open>\<open>no_flags\<close>: no constructor of the node carries a memoised flag, as in every tree
  the parser builds.\<close>

fun no_flags_prod :: "producer \<Rightarrow> bool"
  and no_flags_cons :: "consumer \<Rightarrow> bool"
  and no_flags_stmt :: "statement \<Rightarrow> bool"
  and no_flags_clause :: "clause \<Rightarrow> bool"
where
  "no_flags_prod (Variable_prod x n t) = True"
| "no_flags_prod (Value_prod v t) = True"
| "no_flags_prod (Mu_prod c n s t) = no_flags_stmt s"
| "no_flags_prod (Constructor_prod a n args coargs iv t) =
     (list_all no_flags_prod args \<and> list_all no_flags_cons coargs \<and> iv = None)"
| "no_flags_prod (Cocase_prod clauses t) = list_all no_flags_clause clauses"
| "no_flags_cons (Covariable_cons c n t) = True"
| "no_flags_cons (Mu_cons x n s t) = no_flags_stmt s"
| "no_flags_cons (Destructor_cons a n args coargs t) =
     (list_all no_flags_prod args \<and> list_all no_flags_cons coargs)"
| "no_flags_cons (Case_cons clauses t) = list_all no_flags_clause clauses"
| "no_flags_cons (End_cons t) = True"
| "no_flags_stmt (Arithmetic_stmt op l r after) =
     (no_flags_prod l \<and> no_flags_prod r \<and> no_flags_cons after)"
| "no_flags_stmt (Ifz_stmt c z other) =
     (no_flags_prod c \<and> no_flags_stmt z \<and> no_flags_stmt other)"
| "no_flags_stmt (Cut_stmt p c) = (no_flags_prod p \<and> no_flags_cons c)"
| "no_flags_stmt (Call_stmt d n args coargs) =
     (list_all no_flags_prod args \<and> list_all no_flags_cons coargs)"
| "no_flags_clause (Clause a n ans cns ids coids s) = no_flags_stmt s"

subsection \<open>Free occurrences\<close>

text \<open>
  The ids of the variables (\<open>fv\<close>) and covariables (\<open>fcv\<close>) that occur in a node outside
  the scope of a binder of the same id: \<open>mu\<close> binds its covariable, \<open>mu'\<close> its variable,
  a clause all its parameters and coparameters.
\<close>

fun fv_prod :: "producer \<Rightarrow> nat set"
  and fv_cons :: "consumer \<Rightarrow> nat set"
  and fv_stmt :: "statement \<Rightarrow> nat set"
  and fv_clause :: "clause \<Rightarrow> nat set"
where
  "fv_prod (Variable_prod x n t) = {x}"
| "fv_prod (Value_prod v t) = {}"
| "fv_prod (Mu_prod c n s t) = fv_stmt s"
| "fv_prod (Constructor_prod a n args coargs iv t) =
     (\<Union>p \<in> set args. fv_prod p) \<union> (\<Union>c \<in> set coargs. fv_cons c)"
| "fv_prod (Cocase_prod clauses t) = (\<Union>cl \<in> set clauses. fv_clause cl)"
| "fv_cons (Covariable_cons c n t) = {}"
| "fv_cons (Mu_cons x n s t) = fv_stmt s - {x}"
| "fv_cons (Destructor_cons a n args coargs t) =
     (\<Union>p \<in> set args. fv_prod p) \<union> (\<Union>c \<in> set coargs. fv_cons c)"
| "fv_cons (Case_cons clauses t) = (\<Union>cl \<in> set clauses. fv_clause cl)"
| "fv_cons (End_cons t) = {}"
| "fv_stmt (Arithmetic_stmt op l r after) = fv_prod l \<union> fv_prod r \<union> fv_cons after"
| "fv_stmt (Ifz_stmt c z other) = fv_prod c \<union> fv_stmt z \<union> fv_stmt other"
| "fv_stmt (Cut_stmt p c) = fv_prod p \<union> fv_cons c"
| "fv_stmt (Call_stmt d n args coargs) =
     (\<Union>p \<in> set args. fv_prod p) \<union> (\<Union>c \<in> set coargs. fv_cons c)"
| "fv_clause (Clause a n ans cns ids coids s) = fv_stmt s - set ids"

fun fcv_prod :: "producer \<Rightarrow> nat set"
  and fcv_cons :: "consumer \<Rightarrow> nat set"
  and fcv_stmt :: "statement \<Rightarrow> nat set"
  and fcv_clause :: "clause \<Rightarrow> nat set"
where
  "fcv_prod (Variable_prod x n t) = {}"
| "fcv_prod (Value_prod v t) = {}"
| "fcv_prod (Mu_prod c n s t) = fcv_stmt s - {c}"
| "fcv_prod (Constructor_prod a n args coargs iv t) =
     (\<Union>p \<in> set args. fcv_prod p) \<union> (\<Union>c \<in> set coargs. fcv_cons c)"
| "fcv_prod (Cocase_prod clauses t) = (\<Union>cl \<in> set clauses. fcv_clause cl)"
| "fcv_cons (Covariable_cons c n t) = {c}"
| "fcv_cons (Mu_cons x n s t) = fcv_stmt s"
| "fcv_cons (Destructor_cons a n args coargs t) =
     (\<Union>p \<in> set args. fcv_prod p) \<union> (\<Union>c \<in> set coargs. fcv_cons c)"
| "fcv_cons (Case_cons clauses t) = (\<Union>cl \<in> set clauses. fcv_clause cl)"
| "fcv_cons (End_cons t) = {}"
| "fcv_stmt (Arithmetic_stmt op l r after) = fcv_prod l \<union> fcv_prod r \<union> fcv_cons after"
| "fcv_stmt (Ifz_stmt c z other) = fcv_prod c \<union> fcv_stmt z \<union> fcv_stmt other"
| "fcv_stmt (Cut_stmt p c) = fcv_prod p \<union> fcv_cons c"
| "fcv_stmt (Call_stmt d n args coargs) =
     (\<Union>p \<in> set args. fcv_prod p) \<union> (\<Union>c \<in> set coargs. fcv_cons c)"
| "fcv_clause (Clause a n ans cns ids coids s) = fcv_stmt s - set coids"

subsection \<open>The forwarding graph of the type store\<close>

definition is_link :: "type_instance \<Rightarrow> bool" where
  "is_link t = (case t of Type_handle _ \<Rightarrow> True | _ \<Rightarrow> False)"

text \<open>
  \<open>reaches ts h h'\<close>: the chain of forwarding links that starts at slot \<open>h\<close> arrives
  at \<open>h'\<close> after one link or more. The forwarding graph has a cycle iff some slot
  reaches itself.
\<close>

inductive reaches :: "type_store \<Rightarrow> nat \<Rightarrow> nat \<Rightarrow> bool" for ts where
  link: "h < length ts \<Longrightarrow> ts ! h = Type_handle h' \<Longrightarrow> reaches ts h h'"
| step: "h < length ts \<Longrightarrow> ts ! h = Type_handle h' \<Longrightarrow> reaches ts h' h'' \<Longrightarrow> reaches ts h h''"

text \<open>
  \<open>forward_acyclic\<close>, the executable form: dereferencing any handle of the store
  ends, at a slot of the store.
\<close>

definition forward_acyclic :: "type_store \<Rightarrow> bool" where
  "forward_acyclic ts \<longleftrightarrow>
     list_all (\<lambda>h. case try_dereference_const ts h of Some (Inr r) \<Rightarrow> True | _ \<Rightarrow> False)
       [0..<length ts]"

text \<open>\<open>root_of ts h r\<close>: the chain of links from \<open>h\<close> ends at the direct slot \<open>r\<close>.\<close>

inductive root_of :: "type_store \<Rightarrow> nat \<Rightarrow> nat \<Rightarrow> bool" for ts where
  direct: "h < length ts \<Longrightarrow> \<not> is_link (ts ! h) \<Longrightarrow> root_of ts h h"
| forwarded: "h < length ts \<Longrightarrow> ts ! h = Type_handle h' \<Longrightarrow> root_of ts h' r \<Longrightarrow> root_of ts h r"

text \<open>
  \<open>compressed ts ts'\<close>: the stores differ at most in forwarding links, each changed link
  now pointing straight at the slot its chain ended at (path compression).
\<close>

definition compressed :: "type_store \<Rightarrow> type_store \<Rightarrow> bool" where
  "compressed ts ts' \<longleftrightarrow>
     length ts' = length ts \<and>
     (\<forall>h < length ts. ts' ! h = ts ! h \<or>
        (is_link (ts ! h) \<and> (\<exists>r. root_of ts h r \<and> ts' ! h = Type_handle r)))"

text \<open>
  Two notions used in the proofs. \<open>has_roots\<close>: every slot of the store has a chain that
  ends (the same as \<open>forward_acyclic\<close>, stated with \<open>root_of\<close>). \<open>extends ts ts'\<close>:
  \<open>ts'\<close> comes from \<open>ts\<close> by compressing chains and binding variables; concrete slots are
  the same, and the end of a chain in \<open>ts'\<close> is found by going to its end in \<open>ts\<close> first.
\<close>

definition has_roots :: "type_store \<Rightarrow> bool" where
  "has_roots ts \<longleftrightarrow> (\<forall>h < length ts. \<exists>r. root_of ts h r)"

definition extends :: "type_store \<Rightarrow> type_store \<Rightarrow> bool" where
  "extends ts ts' \<longleftrightarrow>
     length ts' = length ts \<and> has_roots ts' \<and>
     (\<forall>h < length ts. \<forall>tid ps. ts ! h = Concrete_type tid ps \<longrightarrow> ts' ! h = ts ! h) \<and>
     (\<forall>h r r'. root_of ts h r \<longrightarrow> root_of ts' r r' \<longrightarrow> root_of ts' h r')"


subsection \<open>The default typing context\<close>

text \<open>The value of \<open>default_typing_context\<close>, written out: the six builtin types with
  their parameters, the eight builtin structors, and the store they occupy.\<close>

definition builtin_ctx :: Typing_context where
  "builtin_ctx =
     \<lparr>type_prototypes = [0, 1, 3, 6, 8, 11],
      type_names = [''Integer'', ''List'', ''Pair'', ''Stream'', ''LazyPair'', ''Lambda''],
      type_structors = [1 \<mapsto> {1, 0}, 3 \<mapsto> {2}, 6 \<mapsto> {4, 3}, 8 \<mapsto> {6, 5}, 11 \<mapsto> {7}],
      abstractions =
        [\<lparr>abs_type = Some 1, abstraction_name = ''Nil'', abs_args = [], abs_coargs = []\<rparr>,
         \<lparr>abs_type = Some 1, abstraction_name = ''Cons'', abs_args = [2, 14], abs_coargs = []\<rparr>,
         \<lparr>abs_type = Some 3, abstraction_name = ''Pair'', abs_args = [4, 5], abs_coargs = []\<rparr>,
         \<lparr>abs_type = Some 6, abstraction_name = ''Head'', abs_args = [], abs_coargs = [7]\<rparr>,
         \<lparr>abs_type = Some 6, abstraction_name = ''Tail'', abs_args = [], abs_coargs = [15]\<rparr>,
         \<lparr>abs_type = Some 8, abstraction_name = ''Fst'', abs_args = [], abs_coargs = [9]\<rparr>,
         \<lparr>abs_type = Some 8, abstraction_name = ''Snd'', abs_args = [], abs_coargs = [10]\<rparr>,
         \<lparr>abs_type = Some 11, abstraction_name = ''Ap'', abs_args = [12], abs_coargs = [13]\<rparr>],
      types =
        [Concrete_type 0 [], Concrete_type 1 [2], Type_var 1, Concrete_type 2 [4, 5],
         Type_var 3, Type_var 4, Concrete_type 3 [7], Type_var 6, Concrete_type 4 [9, 10],
         Type_var 8, Type_var 9, Concrete_type 5 [12, 13], Type_var 11, Type_var 12,
         Concrete_type 1 [2], Concrete_type 3 [7]]\<rparr>"


subsection \<open>Identifier characters\<close>

text \<open>The characters a word is made of: \<open>read_word\<close> stops at whitespace and at the
  four brackets.\<close>

definition word_char :: "char \<Rightarrow> bool" where
  "word_char c =
     (\<not> isspace (of_char c) \<and> c \<noteq> CHR ''('' \<and> c \<noteq> CHR '')'' \<and> c \<noteq> CHR ''['' \<and> c \<noteq> CHR '']'')"


subsection \<open>Polymorphic recursion\<close>

text \<open>
  \<open>def_poly_recursion_bad\<close> of tests/Programs.h, the program it parses to and the
  typing context the parser leaves; and a program in which the same argument,
  \<open>Pair(x, x)\<close>, is passed to another definition.
\<close>

definition P_polyrec_bad :: string where
  "P_polyrec_bad = ''(def PolyRec (x) () '' @ [CHR 0x0A] @ ''   (PolyRec ((Pair (x x))) ()))''"

definition polyrec_program :: Program where
  "polyrec_program =
     \<lparr>definitions =
        [\<lparr>abstraction_id = 8, definition_name = ''PolyRec'', arg_names = [''x''],
          coarg_names = [], arg_ids = [0], coarg_ids = [],
          body = Call_stmt 0 ''PolyRec''
                   [Constructor_prod 2 ''Pair''
                      [Variable_prod 0 ''x'' None, Variable_prod 0 ''x'' None] []
                      None None] []\<rparr>],
      statements = []\<rparr>"

definition polyrec_ctx :: Typing_context where
  "polyrec_ctx =
     builtin_ctx
       \<lparr>types := types builtin_ctx @ [Type_var 15],
        abstractions := abstractions builtin_ctx @
          [\<lparr>abs_type = None, abstraction_name = ''PolyRec'', abs_args = [16], abs_coargs = []\<rparr>]\<rparr>"

definition P_poly_call :: string where
  "P_poly_call = ''(def A (x) () [x <END>]) (def B (x) () (A ((Pair (x x))) ()))''"

text \<open>A member function of the typer that leaves \<open>current_definition\<close> as it found
  it, whether it returns or throws.\<close>

definition keeps_current_definition :: "'a typing \<Rightarrow> bool" where
  "keeps_current_definition m =
     (\<forall>t r t'. m t = Some (r, t') \<longrightarrow> current_definition t' = current_definition t)"

subsection \<open>Simultaneous substitution\<close>

text \<open>
  Substitution as the specification words it. The maps \<open>vm\<close> and \<open>cm\<close> stay the same
  during the whole traversal; \<open>B\<close> and \<open>C\<close> are the ids of the variables and covariables
  bound by the binders (\<open>mu\<close>, \<open>mu'\<close>, clause) that enclose the current node. An
  occurrence of a variable (covariable) is replaced by the producer (consumer) the map
  gives for its id when no enclosing binder binds that id; the inserted copy is the
  result at that position and is not traversed. Every other node is kept and its
  children are substituted, under a binder with the bound ids added to \<open>B\<close> or \<open>C\<close>.
  The memoised \<open>is_value\<close> answer \<open>false\<close> of a constructor node is forgotten, since
  an argument may have become a value.
\<close>

fun subst_spec_prod ::
    "nat set \<Rightarrow> nat set \<Rightarrow> (nat \<rightharpoonup> producer) \<Rightarrow> (nat \<rightharpoonup> consumer) \<Rightarrow> producer \<Rightarrow> producer"
  and subst_spec_cons ::
    "nat set \<Rightarrow> nat set \<Rightarrow> (nat \<rightharpoonup> producer) \<Rightarrow> (nat \<rightharpoonup> consumer) \<Rightarrow> consumer \<Rightarrow> consumer"
  and subst_spec_stmt ::
    "nat set \<Rightarrow> nat set \<Rightarrow> (nat \<rightharpoonup> producer) \<Rightarrow> (nat \<rightharpoonup> consumer) \<Rightarrow> statement \<Rightarrow> statement"
  and subst_spec_clause ::
    "nat set \<Rightarrow> nat set \<Rightarrow> (nat \<rightharpoonup> producer) \<Rightarrow> (nat \<rightharpoonup> consumer) \<Rightarrow> clause \<Rightarrow> clause"
where
  "subst_spec_prod B C vm cm (Variable_prod x n t) =
     (if x \<in> B then Variable_prod x n t
      else case vm x of None \<Rightarrow> Variable_prod x n t | Some q \<Rightarrow> q)"
| "subst_spec_prod B C vm cm (Value_prod v t) = Value_prod v t"
| "subst_spec_prod B C vm cm (Mu_prod a n s t) =
     Mu_prod a n (subst_spec_stmt B (insert a C) vm cm s) t"
| "subst_spec_prod B C vm cm (Constructor_prod a n args coargs iv t) =
     Constructor_prod a n (map (subst_spec_prod B C vm cm) args)
       (map (subst_spec_cons B C vm cm) coargs) (if iv = Some False then None else iv) t"
| "subst_spec_prod B C vm cm (Cocase_prod clauses t) =
     Cocase_prod (map (subst_spec_clause B C vm cm) clauses) t"
| "subst_spec_cons B C vm cm (Covariable_cons a n t) =
     (if a \<in> C then Covariable_cons a n t
      else case cm a of None \<Rightarrow> Covariable_cons a n t | Some k \<Rightarrow> k)"
| "subst_spec_cons B C vm cm (Mu_cons x n s t) =
     Mu_cons x n (subst_spec_stmt (insert x B) C vm cm s) t"
| "subst_spec_cons B C vm cm (Destructor_cons a n args coargs t) =
     Destructor_cons a n (map (subst_spec_prod B C vm cm) args)
       (map (subst_spec_cons B C vm cm) coargs) t"
| "subst_spec_cons B C vm cm (Case_cons clauses t) =
     Case_cons (map (subst_spec_clause B C vm cm) clauses) t"
| "subst_spec_cons B C vm cm (End_cons t) = End_cons t"
| "subst_spec_stmt B C vm cm (Arithmetic_stmt op l r after) =
     Arithmetic_stmt op (subst_spec_prod B C vm cm l) (subst_spec_prod B C vm cm r)
       (subst_spec_cons B C vm cm after)"
| "subst_spec_stmt B C vm cm (Ifz_stmt c z other) =
     Ifz_stmt (subst_spec_prod B C vm cm c) (subst_spec_stmt B C vm cm z)
       (subst_spec_stmt B C vm cm other)"
| "subst_spec_stmt B C vm cm (Cut_stmt p c) =
     Cut_stmt (subst_spec_prod B C vm cm p) (subst_spec_cons B C vm cm c)"
| "subst_spec_stmt B C vm cm (Call_stmt d n args coargs) =
     Call_stmt d n (map (subst_spec_prod B C vm cm) args)
       (map (subst_spec_cons B C vm cm) coargs)"
| "subst_spec_clause B C vm cm (Clause a n ans cns ids coids s) =
     Clause a n ans cns ids coids (subst_spec_stmt (B \<union> set ids) (C \<union> set coids) vm cm s)"

section \<open>Properties of the interpreter\<close>

subsection \<open>Arithmetic\<close>

lemma sint_word_of_int_representable:
  "representable v \<Longrightarrow> sint (word_of_int v :: int64) = v"
  by (simp add: representable_def sint_sbintrunc' signed_take_bit_int_eq_self)

lemma sint_representable: "representable (sint (w :: int64))"
  using sint_ge [of w] sint_lt [of w] by (simp add: representable_def)

lemma sdiv_representable:
  assumes a: "representable a" and b: "b \<noteq> 0" and ov: "\<not> (a = - (2 ^ 63) \<and> b = - 1)"
  shows "representable (a sdiv b)"
proof -
  have r: "- \<bar>a\<bar> \<le> a sdiv b" "a sdiv b \<le> \<bar>a\<bar>"
    using sdiv_int_range [of a b] by simp_all
  have "a sdiv b \<noteq> 2 ^ 63"
  proof
    assume e: "a sdiv b = 2 ^ 63"
    with r a have "a = - (2 ^ 63)" unfolding representable_def by linarith
    with e have "a sdiv b = - a" "a \<noteq> 0" by simp_all
    then have "b = - 1" by simp
    with ov \<open>a = - (2 ^ 63)\<close> show False by simp
  qed
  with r a show ?thesis unfolding representable_def by linarith
qed

lemma smod_representable:
  assumes b: "representable b" "b \<noteq> 0"
  shows "representable (a smod b)"
  using smod_int_range [of b a] b unfolding representable_def atLeastAtMost_iff by linarith

lemma step_arithmetic_literals:
  "step i (Arithmetic_stmt op (Value_prod l t1) (Value_prod r t2) after) =
     (case do_arithmetic op l r of
        None \<Rightarrow> Inl Undefined_behaviour
      | Some v \<Rightarrow> Inr (Next_statement (Cut_stmt (Value_prod v None) after), i))"
  by (simp add: step_arithmetic_def)

text \<open>
  Where \<open>do_arithmetic\<close> is defined. Division by zero yields \<open>1\<close> and modulus by zero the
  left operand. For a divisor that is not zero, and unless the operands are \<open>INT64_MIN\<close>
  and \<open>-1\<close>, \<open>div\<close> and \<open>mod\<close> return the quotient truncated towards zero and the
  remainder with the sign of the dividend. For every operation and every pair of
  operands other than \<open>div\<close> or \<open>mod\<close> of \<open>INT64_MIN\<close> and \<open>-1\<close>, the arithmetic statement
  on the two literals reduces to the cut of the result.
\<close>

lemma do_arithmetic_div_mod_defined:
  fixes l r :: int64
  assumes "r \<noteq> 0" and "\<not> (sint l = - (2 ^ 63) \<and> sint r = - 1)"
  shows "do_arithmetic Div l r = Some (word_of_int (sint l sdiv sint r)) \<and>
         do_arithmetic Mod l r = Some (word_of_int (sint l smod sint r)) \<and>
         sint (word_of_int (sint l sdiv sint r) :: int64) =
           sgn (sint l) * sgn (sint r) * (\<bar>sint l\<bar> div \<bar>sint r\<bar>) \<and>
         sint (word_of_int (sint l smod sint r) :: int64) =
           sgn (sint l) * (\<bar>sint l\<bar> mod \<bar>sint r\<bar>)"
proof -
  have r0: "sint r \<noteq> 0"
    using assms(1) by (simp add: signed_eq_0_iff)
  have q: "representable (sint l sdiv sint r)"
    using sint_representable [of l] r0 assms(2) by (intro sdiv_representable) simp_all
  have m: "representable (sint l smod sint r)"
    using sint_representable [of r] r0 by (rule smod_representable)
  have 1: "do_arithmetic Div l r = Some (word_of_int (sint l sdiv sint r))"
    using assms(1) q by simp
  have 2: "do_arithmetic Mod l r = Some (word_of_int (sint l smod sint r))"
    using assms(1) q by simp
  have 3: "sint (word_of_int (sint l sdiv sint r) :: int64) =
        sgn (sint l) * sgn (sint r) * (\<bar>sint l\<bar> div \<bar>sint r\<bar>)"
    using sint_word_of_int_representable [OF q] by (simp only: signed_divide_int_def)
  have 4: "sint (word_of_int (sint l smod sint r) :: int64) =
        sgn (sint l) * (\<bar>sint l\<bar> mod \<bar>sint r\<bar>)"
    using sint_word_of_int_representable [OF m] by (simp only: signed_modulo_int_def)
  from 1 2 3 4 show ?thesis
    by (intro conjI)
qed

lemma do_arithmetic_defined:
  fixes l r :: int64
  assumes "\<not> ((op = Div \<or> op = Mod) \<and> sint l = - (2 ^ 63) \<and> sint r = - 1)"
  shows "\<exists>v. do_arithmetic op l r = Some v \<and>
             step i (Arithmetic_stmt op (Value_prod l t1) (Value_prod r t2) after) =
               Inr (Next_statement (Cut_stmt (Value_prod v None) after), i)"
proof -
  have "\<exists>v. do_arithmetic op l r = Some v"
  proof (cases "r = 0")
    case True
    then show ?thesis
      by (cases op) simp_all
  next
    case False
    show ?thesis
    proof (cases "op = Div \<or> op = Mod")
      case True
      then have "\<not> (sint l = - (2 ^ 63) \<and> sint r = - 1)"
        using assms by blast
      from do_arithmetic_div_mod_defined [OF False this] True show ?thesis
        by auto
    next
      case False
      then show ?thesis
        by (cases op) simp_all
    qed
  qed
  then obtain v where v: "do_arithmetic op l r = Some v"
    by blast
  have "step i (Arithmetic_stmt op (Value_prod l t1) (Value_prod r t2) after) =
          Inr (Next_statement (Cut_stmt (Value_prod v None) after), i)"
    unfolding step_arithmetic_literals v by simp
  with v show ?thesis
    by blast
qed

lemma do_arithmetic_zero_divisor:
  "do_arithmetic Div l 0 = Some 1 \<and> do_arithmetic Mod l 0 = Some l \<and>
   step i (Arithmetic_stmt Div (Value_prod l t1) (Value_prod 0 t2) after) =
     Inr (Next_statement (Cut_stmt (Value_prod 1 None) after), i) \<and>
   step i (Arithmetic_stmt Mod (Value_prod l t1) (Value_prod 0 t2) after) =
     Inr (Next_statement (Cut_stmt (Value_prod l None) after), i)"
  unfolding step_arithmetic_literals by simp

subsection \<open>The value predicate and its memoised flag\<close>

lemma list_all_map_eq: "map f xs = map f ys \<Longrightarrow> list_all f xs = list_all f ys"
proof -
  assume e: "map f xs = map f ys"
  have "list_all f zs \<longleftrightarrow> list_all (\<lambda>b. b) (map f zs)" for zs
    by (simp add: list.pred_map comp_def)
  with e show ?thesis by simp
qed

lemma is_value_aux:
  "flags_ok_prod p \<Longrightarrow>
     fst (is_value p) = is_value_spec p \<and> flags_ok_prod (snd (is_value p)) \<and>
     is_value_spec (snd (is_value p)) = is_value_spec p"
  "list_all flags_ok_prod ps \<Longrightarrow>
     fst (all_of_is_value ps) = list_all is_value_spec ps \<and>
     list_all flags_ok_prod (snd (all_of_is_value ps)) \<and>
     map is_value_spec (snd (all_of_is_value ps)) = map is_value_spec ps"
proof (induction p and ps rule: is_value_all_of_is_value.induct)
  case (3 a n args coargs iv t)
  show ?case
  proof (cases iv)
    case None
    from "3.prems" have ok: "list_all flags_ok_prod args" by simp
    note ih = "3.IH" [OF None ok]
    obtain b args' where r: "all_of_is_value args = (b, args')" by (cases "all_of_is_value args")
    from ih r have b: "b = list_all is_value_spec args"
      and ok': "list_all flags_ok_prod args'"
      and m: "map is_value_spec args' = map is_value_spec args" by simp_all
    from m have e: "list_all is_value_spec args' = list_all is_value_spec args"
      by (rule list_all_map_eq)
    from "3.prems" None r b ok' e show ?thesis by simp
  next
    case (Some b)
    with "3.prems" show ?thesis by simp
  qed
next
  case (7 p ps)
  from "7.prems" have okp: "flags_ok_prod p" and okps: "list_all flags_ok_prod ps" by simp_all
  obtain b p' where r: "is_value p = (b, p')" by (cases "is_value p")
  from "7.IH"(1) [OF okp] r have b: "b = is_value_spec p" and okp': "flags_ok_prod p'"
    and e: "is_value_spec p' = is_value_spec p" by simp_all
  show ?case
  proof (cases b)
    case False
    with r b okp' e okps show ?thesis by simp
  next
    case True
    obtain bs ps' where rs: "all_of_is_value ps = (bs, ps')" by (cases "all_of_is_value ps")
    from "7.IH"(2) [OF refl r [symmetric] True okps] rs
    have "bs = list_all is_value_spec ps" "list_all flags_ok_prod ps'"
      "map is_value_spec ps' = map is_value_spec ps" by simp_all
    with r rs True b okp' e show ?thesis by simp
  qed
qed simp_all


lemma find_non_value_aux:
  "list_all flags_ok_prod ps \<Longrightarrow>
     list_all flags_ok_prod (snd (find_non_value ps)) \<and>
     map is_value_spec (snd (find_non_value ps)) = map is_value_spec ps \<and>
     length (snd (find_non_value ps)) = length ps \<and>
     (case fst (find_non_value ps) of
        None \<Rightarrow> list_all is_value_spec ps
      | Some k \<Rightarrow> k < length ps \<and> \<not> is_value_spec (ps ! k))"
proof (induction ps)
  case Nil
  then show ?case by simp
next
  case (Cons p ps)
  from Cons.prems have okp: "flags_ok_prod p" and okps: "list_all flags_ok_prod ps" by simp_all
  obtain b p' where r: "is_value p = (b, p')" by (cases "is_value p")
  from is_value_aux(1) [OF okp] r have b: "b = is_value_spec p" and okp': "flags_ok_prod p'"
    and e: "is_value_spec p' = is_value_spec p" by simp_all
  obtain k ps' where rs: "find_non_value ps = (k, ps')" by (cases "find_non_value ps")
  from Cons.IH [OF okps] rs r b okp' e okps show ?case
    by (cases b) (auto split: option.splits)
qed

lemma replace_keeps_value:
  "is_value_spec p \<Longrightarrow> is_value_spec (replace_prod p vm cm)"
proof (induction p arbitrary: vm cm rule: is_value_spec.induct)
  case (3 a n args coargs iv t)
  then show ?case by (simp add: list_all_iff)
qed simp_all


lemma fold_erase:
  "fold (\<lambda>a m. m(a := None)) ids m = (\<lambda>x. if x \<in> set ids then None else m x)"
  by (induction ids arbitrary: m) (auto simp: fun_eq_iff)

lemma replace_flags_ok:
  "flags_ok_prod p \<Longrightarrow> (\<forall>x q. vm x = Some q \<longrightarrow> flags_ok_prod q) \<Longrightarrow>
     (\<forall>a k. cm a = Some k \<longrightarrow> flags_ok_cons k) \<Longrightarrow> flags_ok_prod (replace_prod p vm cm)"
  "flags_ok_cons c \<Longrightarrow> (\<forall>x q. vm x = Some q \<longrightarrow> flags_ok_prod q) \<Longrightarrow>
     (\<forall>a k. cm a = Some k \<longrightarrow> flags_ok_cons k) \<Longrightarrow> flags_ok_cons (replace_cons c vm cm)"
  "flags_ok_stmt s \<Longrightarrow> (\<forall>x q. vm x = Some q \<longrightarrow> flags_ok_prod q) \<Longrightarrow>
     (\<forall>a k. cm a = Some k \<longrightarrow> flags_ok_cons k) \<Longrightarrow> flags_ok_stmt (replace_stmt s vm cm)"
  "flags_ok_clause cl \<Longrightarrow> (\<forall>x q. vm x = Some q \<longrightarrow> flags_ok_prod q) \<Longrightarrow>
     (\<forall>a k. cm a = Some k \<longrightarrow> flags_ok_cons k) \<Longrightarrow> flags_ok_clause (replace_clause cl vm cm)"
proof (induction p vm cm and c vm cm and s vm cm and cl vm cm
    rule: replace_prod_replace_cons_replace_stmt_replace_clause.induct)
  case (1 x n t var_map covar_map)
  then show ?case by (auto split: option.splits)
next
  case (4 a n args coargs iv t var_map covar_map)
  have args: "list_all flags_ok_prod (map (\<lambda>arg. replace_prod arg var_map covar_map) args)"
    using 4 by (simp add: list_all_iff)
  have coargs: "list_all flags_ok_cons (map (\<lambda>coarg. replace_cons coarg var_map covar_map) coargs)"
    using 4 by (simp add: list_all_iff)
  have "iv = Some True \<Longrightarrow>
      list_all is_value_spec (map (\<lambda>arg. replace_prod arg var_map covar_map) args)"
    using "4.prems"(1) by (simp add: list_all_iff replace_keeps_value)
  with args coargs show ?case by (cases iv) auto
next
  case (6 c n t var_map covar_map)
  then show ?case by (auto split: option.splits)
next
  case (15 a n ans cns ids coids s var_map covar_map)
  then show ?case by (simp add: fold_erase)
qed (simp_all add: list_all_iff)


lemma map_of_zip_flags:
  "list_all P ys \<Longrightarrow> map_of (zip xs ys) x = Some q \<Longrightarrow> P q"
  by (auto simp: list_all_iff dest!: map_of_SomeD set_zip_rightD)

lemma focus_statement_flags_ok:
  assumes "flags_ok_prod prd" "flags_ok_stmt (stmt (Variable_prod (n_vars i) name None))"
    and "focus_statement stmt prd name i = (s', i')"
  shows "flags_ok_stmt s' \<and> interp_definitions i' = interp_definitions i"
  using assms by (auto simp: focus_statement_def fresh_var_id_def)

lemma list_all_update: "list_all P xs \<Longrightarrow> P y \<Longrightarrow> list_all P (xs[k := y])"
  by (auto simp: list_all_iff dest: set_update_subset_insert [THEN subsetD])

lemma step_arithmetic_flags_ok:
  assumes ok: "flags_ok_prod l" "flags_ok_prod r" "flags_ok_cons after"
    and st: "step_arithmetic i op l r after = Inr (res, i')"
  shows "flags_ok_result res \<and> interp_definitions i' = interp_definitions i"
proof -
  obtain lv l' where l: "is_value l = (lv, l')" by (cases "is_value l")
  obtain rv r' where r: "is_value r = (rv, r')" by (cases "is_value r")
  from is_value_aux(1) [OF ok(1)] l have l': "flags_ok_prod l'" by simp
  from is_value_aux(1) [OF ok(2)] r have r': "flags_ok_prod r'" by simp
  show ?thesis
  proof (cases lv)
    case False
    obtain s1 i1 where f: "focus_arithmetic op l' r after True i = (s1, i1)"
      by (cases "focus_arithmetic op l' r after True i")
    with st l False have e: "res = Next_statement s1" "i' = i1"
      by (simp_all add: step_arithmetic_def)
    from f have "focus_statement (\<lambda>p. Arithmetic_stmt op p r after) l' ''_ar_l'' i = (s1, i1)"
      by (simp add: focus_arithmetic_def)
    from focus_statement_flags_ok [OF l' _ this] ok e show ?thesis by simp
  next
    case True
    show ?thesis
    proof (cases rv)
      case False
      obtain s1 i1 where f: "focus_arithmetic op l' r' after False i = (s1, i1)"
        by (cases "focus_arithmetic op l' r' after False i")
      with st l r True False have e: "res = Next_statement s1" "i' = i1"
        by (simp_all add: step_arithmetic_def)
      from f have "focus_statement (\<lambda>p. Arithmetic_stmt op l' p after) r' ''_ar_r'' i = (s1, i1)"
        by (simp add: focus_arithmetic_def)
      from focus_statement_flags_ok [OF r' _ this] ok l' e show ?thesis by simp
    next
      case rt: True
      with st l r True ok show ?thesis
        by (auto simp: step_arithmetic_def split: producer.splits option.splits)
    qed
  qed
qed

lemma step_ifz_flags_ok:
  assumes ok: "flags_ok_prod c" "flags_ok_stmt z" "flags_ok_stmt other"
    and st: "step_ifz i c z other = Inr (res, i')"
  shows "flags_ok_result res \<and> interp_definitions i' = interp_definitions i"
proof -
  obtain cv c' where c: "is_value c = (cv, c')" by (cases "is_value c")
  from is_value_aux(1) [OF ok(1)] c have c': "flags_ok_prod c'" by simp
  show ?thesis
  proof (cases cv)
    case False
    obtain s1 i1 where f: "focus_ifz c' z other i = (s1, i1)"
      by (cases "focus_ifz c' z other i")
    with st c False have e: "res = Next_statement s1" "i' = i1"
      by (simp_all add: step_ifz_def)
    from f have "focus_statement (\<lambda>p. Ifz_stmt p z other) c' ''_ifz'' i = (s1, i1)"
      by (simp add: focus_ifz_def)
    from focus_statement_flags_ok [OF c' _ this] ok e show ?thesis by simp
  next
    case True
    with st c ok show ?thesis
      by (auto simp: step_ifz_def split: producer.splits if_splits)
  qed
qed

lemma eval_clauses_flags_ok:
  assumes "list_all flags_ok_prod args" "list_all flags_ok_cons coargs"
    "list_all flags_ok_clause clauses" "eval_clauses a args coargs clauses ctx = Inr res"
  shows "flags_ok_stmt res"
proof -
  from assms(4) obtain m where f: "find (\<lambda>cl. clause_abstraction_id cl = a) clauses = Some m"
    and res: "res = replace_stmt (clause_body m) (map_of (zip (clause_arg_ids m) args))
                      (map_of (zip (clause_coarg_ids m) coargs))"
    by (auto simp: eval_clauses_def split: option.splits if_splits)
  from f have "m \<in> set clauses" by (auto simp: find_Some_iff)
  with assms(3) have "flags_ok_clause m" by (simp add: list_all_iff)
  then have b: "flags_ok_stmt (clause_body m)" by (cases m) simp
  show ?thesis unfolding res
    by (rule replace_flags_ok(3) [OF b])
       (blast intro: map_of_zip_flags [OF assms(1)] map_of_zip_flags [OF assms(2)])+
qed

lemma step_call_flags_ok:
  assumes ok: "list_all flags_ok_prod args" "list_all flags_ok_cons coargs"
    and defs: "\<forall>d \<in> set (interp_definitions i). flags_ok_stmt (body d)"
    and st: "step_call i d name args coargs = Inr (res, i')"
  shows "flags_ok_result res \<and> interp_definitions i' = interp_definitions i"
proof -
  obtain nv args' where f: "find_non_value args = (nv, args')" by (cases "find_non_value args")
  from find_non_value_aux [OF ok(1)] f have args': "list_all flags_ok_prod args'"
    and len: "length args' = length args" 
    and nvk: "\<And>k. nv = Some k \<Longrightarrow> k < length args" by simp_all
  show ?thesis
  proof (cases nv)
    case (Some k)
    obtain s1 i1 where fc: "focus_call d name args' coargs k i = (s1, i1)"
      by (cases "focus_call d name args' coargs k i")
    with st f Some have e: "res = Next_statement s1" "i' = i1"
      by (simp_all add: step_call_def)
    from fc have fs: "focus_statement (\<lambda>p. Call_stmt d name (args'[k := p]) coargs) (args' ! k)
       (focus_var_template name k) i = (s1, i1)"
      by (simp add: focus_call_def)
    from nvk [OF Some] len args' have "flags_ok_prod (args' ! k)"
      by (simp add: list_all_length)
    from focus_statement_flags_ok [OF this _ fs] ok args' e show ?thesis
      by (simp add: list_all_update)
  next
    case None
    with st f have d: "d < length (interp_definitions i)"
      and res: "res = Next_statement (replace_stmt (body (interp_definitions i ! d))
                            (map_of (zip (arg_ids (interp_definitions i ! d)) args'))
                            (map_of (zip (coarg_ids (interp_definitions i ! d)) coargs)))"
      and i': "i' = i"
      by (auto simp: step_call_def Let_def split: if_splits)
    from d defs have b: "flags_ok_stmt (body (interp_definitions i ! d))" by simp
    have "flags_ok_stmt (replace_stmt (body (interp_definitions i ! d))
                            (map_of (zip (arg_ids (interp_definitions i ! d)) args'))
                            (map_of (zip (coarg_ids (interp_definitions i ! d)) coargs)))"
      by (rule replace_flags_ok(3) [OF b])
         (blast intro: map_of_zip_flags [OF args'] map_of_zip_flags [OF ok(2)])+
    with res i' show ?thesis by simp
  qed
qed


lemma focus_constructor_flags_ok:
  assumes args: "list_all flags_ok_prod args" and coargs: "list_all flags_ok_cons coargs"
    and k: "k < length args" and iv: "iv = None \<or> iv = Some False"
    and f: "focus_constructor a name args coargs iv t k i = (mu, i')"
  shows "flags_ok_prod mu \<and> interp_definitions i' = interp_definitions i"
proof -
  let ?i1 = "i\<lparr>n_covars := n_covars i + 1\<rparr>"
  let ?cut = "\<lambda>p. Cut_stmt (Constructor_prod a name (args[k := p]) coargs iv t)
                 (Covariable_cons (n_covars i) (focus_var_template name k) None)"
  obtain s1 i2 where fs: "focus_statement ?cut (args ! k) (focus_var_template name k) ?i1 = (s1, i2)"
    by (cases "focus_statement ?cut (args ! k) (focus_var_template name k) ?i1")
  with f have mu: "mu = Mu_prod (n_covars i) (focus_var_template name k) s1 None" and i': "i' = i2"
    by (simp_all add: focus_constructor_def fresh_covar_id_def)
  from args k have ak: "flags_ok_prod (args ! k)" by (simp add: list_all_length)
  have nv: "\<not> list_all is_value_spec (args[k := Variable_prod (n_vars ?i1) (focus_var_template name k) None])"
    using k by (auto simp: list_all_length intro!: exI [of _ k])
  have "flags_ok_stmt (?cut (Variable_prod (n_vars ?i1) (focus_var_template name k) None))"
    using args coargs iv nv by (auto simp: list_all_update)
  from focus_statement_flags_ok [OF ak this fs] mu i' show ?thesis by simp
qed

lemma is_value_Constructor_flag:
  "is_value p = (b, Constructor_prod a n args coargs iv t) \<Longrightarrow> iv = Some b"
  by (cases p) (auto split: option.splits prod.splits)

lemma step_cut_flags_ok:
  assumes ok: "flags_ok_prod p" "flags_ok_cons c"
    and st: "step_cut i p c = Inr (res, i')"
  shows "flags_ok_result res \<and> interp_definitions i' = interp_definitions i"
proof (cases "\<exists>cid n b t. p = Mu_prod cid n b t")
  case True
  then obtain cid n b t where p: "p = Mu_prod cid n b t" by blast
  with st have res: "res = Next_statement (replace_stmt b Map.empty [cid \<mapsto> c])" and i': "i' = i"
    by (simp_all add: step_cut_def)
  from ok p have "flags_ok_stmt b" by simp
  from replace_flags_ok(3) [OF this, of Map.empty "[cid \<mapsto> c]"] ok(2) res i' show ?thesis
    by simp
next
  case notmu: False
  obtain pv p' where v: "is_value p = (pv, p')" by (cases "is_value p")
  from is_value_aux(1) [OF ok(1)] v have p': "flags_ok_prod p'" and pv: "pv = is_value_spec p"
    by simp_all
  from notmu st have "step_cut_other i p c = Inr (res, i')"
    by (cases p) (simp_all add: step_cut_def)
  note st' = this [unfolded step_cut_other_def v split_conv Let_def [of "(pv, p')"]]
  show ?thesis
  proof (cases pv)
    case False
    with st' obtain a name args coargs iv t where pc: "p' = Constructor_prod a name args coargs iv t"
      by (cases p') simp_all
    from v pc False have iv: "iv = Some False" by (auto dest: is_value_Constructor_flag)
    from p' pc have args: "list_all flags_ok_prod args" and coargs: "list_all flags_ok_cons coargs"
      by simp_all
    obtain nv args' where f: "find_non_value args = (nv, args')" by (cases "find_non_value args")
    from find_non_value_aux [OF args] f have args': "list_all flags_ok_prod args'"
      and len: "length args' = length args"
      and nvk: "\<And>k. nv = Some k \<Longrightarrow> k < length args" by simp_all
    from st' False pc f obtain k where nv: "nv = Some k" by (cases nv) simp_all
    obtain mu i1 where fc: "focus_constructor a name args' coargs iv t k i = (mu, i1)"
      by (cases "focus_constructor a name args' coargs iv t k i")
    with st' False pc f nv have res: "res = Next_statement (Cut_stmt mu c)" and i': "i' = i1"
      by simp_all
    from nvk [OF nv] len have "k < length args'" by simp
    from focus_constructor_flags_ok [OF args' coargs this _ fc] iv res i' ok(2)
    show ?thesis by simp
  next
    case True
    show ?thesis
    proof (cases c)
      case (Covariable_cons x1 x2 x3)
      with st' True show ?thesis by simp
    next
      case (Mu_cons x n b t)
      with st' True have res: "res = Next_statement (replace_stmt b [x \<mapsto> p'] Map.empty)"
        and i': "i' = i" by simp_all
      from ok(2) Mu_cons have "flags_ok_stmt b" by simp
      from replace_flags_ok(3) [OF this, of "[x \<mapsto> p']" Map.empty] p' res i' show ?thesis
        by simp
    next
      case (Destructor_cons a name args coargs dt)
      with st' True obtain clauses t where pc: "p' = Cocase_prod clauses t"
        by (cases p') simp_all
      from ok(2) Destructor_cons have args: "list_all flags_ok_prod args"
        and coargs: "list_all flags_ok_cons coargs" by simp_all
      obtain nv args' where f: "find_non_value args = (nv, args')" by (cases "find_non_value args")
      from find_non_value_aux [OF args] f have args': "list_all flags_ok_prod args'" by simp
      from st' True Destructor_cons pc f have nv: "nv = None"
        by (cases nv) (simp_all add: focus_destructor_def)
      with st' True Destructor_cons pc f obtain r where
        ev: "eval_clauses a args' coargs clauses
               (Cut_stmt p' (Destructor_cons a name args' coargs dt)) = Inr r"
        and res: "res = Next_statement r" and i': "i' = i"
        by (auto split: sum.splits)
      from p' pc have "list_all flags_ok_clause clauses" by simp
      from eval_clauses_flags_ok [OF args' coargs this ev] res i' show ?thesis by simp
    next
      case (Case_cons clauses ct)
      with st' True obtain a name args coargs iv t where
        pc: "p' = Constructor_prod a name args coargs iv t"
        by (cases p') simp_all
      with st' True Case_cons obtain r where
        ev: "eval_clauses a args coargs clauses (Cut_stmt p' c) = Inr r"
        and res: "res = Next_statement r" and i': "i' = i"
        by (auto split: sum.splits)
      from p' pc have args: "list_all flags_ok_prod args" and coargs: "list_all flags_ok_cons coargs"
        by simp_all
      from ok(2) Case_cons have "list_all flags_ok_clause clauses" by simp
      from eval_clauses_flags_ok [OF args coargs this ev] res i' show ?thesis by simp
    next
      case (End_cons t)
      with st' True p' show ?thesis by auto
    qed
  qed
qed

lemma step_flags_ok:
  assumes "flags_ok_stmt s" "\<forall>d \<in> set (interp_definitions i). flags_ok_stmt (body d)"
    "step i s = Inr (res, i')"
  shows "flags_ok_result res \<and> interp_definitions i' = interp_definitions i"
proof (cases s)
  case (Arithmetic_stmt op l r after)
  with assms step_arithmetic_flags_ok [of l r after i op res i'] show ?thesis by simp
next
  case (Ifz_stmt c z other)
  with assms step_ifz_flags_ok [of c z other i res i'] show ?thesis by simp
next
  case (Cut_stmt p c)
  with assms step_cut_flags_ok [of p c i res i'] show ?thesis by simp
next
  case (Call_stmt d n args coargs)
  with assms step_call_flags_ok [of args coargs i d n res i'] show ?thesis by simp
qed

lemma no_flags_imp_flags_ok:
  "no_flags_prod p \<Longrightarrow> flags_ok_prod p"
  "no_flags_cons c \<Longrightarrow> flags_ok_cons c"
  "no_flags_stmt s \<Longrightarrow> flags_ok_stmt s"
  "no_flags_clause cl \<Longrightarrow> flags_ok_clause cl"
  by (induction p and c and s and cl rule: no_flags_prod_no_flags_cons_no_flags_stmt_no_flags_clause.induct)
     (simp_all add: list_all_iff)

text \<open>
  C6. When the memoised flags of a producer are right, \<open>is_value\<close> returns true iff the
  producer is an integer literal, a cocase, or a constructor all of whose arguments
  (the coarguments do not count) satisfy \<open>is_value\<close>; variables and \<open>mu\<close> abstractions
  are never values; the answer is the value predicate of the specification, and
  \<open>is_value\<close> leaves the flags right. The flags are right in every tree without flags
  (what the parser builds), and substitution and every reduction step keep them right:
  a memoised flag, when present, always equals the predicate.
\<close>

theorem is_value_iff_spec:
  "(flags_ok_prod p \<longrightarrow>
      fst (is_value p) =
        (case p of
           Value_prod v t \<Rightarrow> True
         | Cocase_prod clauses t \<Rightarrow> True
         | Constructor_prod a n args coargs iv t \<Rightarrow> list_all (\<lambda>arg. fst (is_value arg)) args
         | Variable_prod x n t \<Rightarrow> False
         | Mu_prod c n s t \<Rightarrow> False) \<and>
      fst (is_value p) = is_value_spec p \<and>
      flags_ok_prod (snd (is_value p))) \<and>
   (no_flags_stmt s \<longrightarrow> flags_ok_stmt s) \<and>
   (flags_ok_stmt s \<and> (\<forall>x q. vm x = Some q \<longrightarrow> flags_ok_prod q) \<and>
      (\<forall>a k. cm a = Some k \<longrightarrow> flags_ok_cons k) \<longrightarrow>
      flags_ok_stmt (replace_stmt s vm cm)) \<and>
   (flags_ok_stmt s \<and> (\<forall>d \<in> set (interp_definitions i). flags_ok_stmt (body d)) \<and>
      step i s = Inr (res, i') \<longrightarrow>
      flags_ok_result res \<and> interp_definitions i' = interp_definitions i)"
proof (intro conjI impI)
  assume ok: "flags_ok_prod p"
  from is_value_aux(1) [OF ok] show "fst (is_value p) = is_value_spec p"
    and "flags_ok_prod (snd (is_value p))" by simp_all
  show "fst (is_value p) =
        (case p of
           Value_prod v t \<Rightarrow> True
         | Cocase_prod clauses t \<Rightarrow> True
         | Constructor_prod a n args coargs iv t \<Rightarrow> list_all (\<lambda>arg. fst (is_value arg)) args
         | Variable_prod x n t \<Rightarrow> False
         | Mu_prod c n s t \<Rightarrow> False)"
  proof (cases p)
    case (Constructor_prod a n args coargs iv t)
    with ok have "list_all flags_ok_prod args" by simp
    then have "list_all (\<lambda>arg. fst (is_value arg)) args = list_all is_value_spec args"
      by (intro list.pred_cong refl) (simp add: list_all_iff is_value_aux(1))
    with is_value_aux(1) [OF ok] Constructor_prod show ?thesis by simp
  qed simp_all
next
  assume "no_flags_stmt s"
  then show "flags_ok_stmt s" by (rule no_flags_imp_flags_ok)
next
  assume "flags_ok_stmt s \<and> (\<forall>x q. vm x = Some q \<longrightarrow> flags_ok_prod q) \<and>
      (\<forall>a k. cm a = Some k \<longrightarrow> flags_ok_cons k)"
  then show "flags_ok_stmt (replace_stmt s vm cm)" by (intro replace_flags_ok(3)) simp_all
next
  assume h: "flags_ok_stmt s \<and> (\<forall>d \<in> set (interp_definitions i). flags_ok_stmt (body d)) \<and>
      step i s = Inr (res, i')"
  from step_flags_ok [of s i res i'] h
  show "flags_ok_result res" and "interp_definitions i' = interp_definitions i" by simp_all
qed

theorem is_value_iff_spec_witness:
  "flags_ok_prod (Constructor_prod 1 ''Cons''
      [Value_prod 1 None, Constructor_prod 0 ''Nil'' [] [] (Some True) None] [] None None) \<and>
   fst (is_value (Constructor_prod 1 ''Cons''
      [Value_prod 1 None, Constructor_prod 0 ''Nil'' [] [] (Some True) None] [] None None)) \<and>
   flags_ok_prod (snd (is_value (Constructor_prod 1 ''Cons''
      [Value_prod 1 None, Constructor_prod 0 ''Nil'' [] [] (Some True) None] [] None None))) \<and>
   flags_ok_prod (Constructor_prod 1 ''Cons''
      [Value_prod 1 None, Variable_prod 0 ''x'' None] [] (Some False) None) \<and>
   \<not> fst (is_value (Constructor_prod 1 ''Cons''
      [Value_prod 1 None, Variable_prod 0 ''x'' None] [] (Some False) None))"
proof -
  let ?p = "Constructor_prod 1 ''Cons''
      [Value_prod 1 None, Constructor_prod 0 ''Nil'' [] [] (Some True) None] [] None None"
  let ?q = "Constructor_prod 1 ''Cons''
      [Value_prod 1 None, Variable_prod 0 ''x'' None] [] (Some False) None"
  have p: "flags_ok_prod ?p" by simp
  have q: "flags_ok_prod ?q" by simp
  from is_value_iff_spec [of ?p] p
  have "fst (is_value ?p) = is_value_spec ?p" "flags_ok_prod (snd (is_value ?p))" by blast+
  moreover from is_value_iff_spec [of ?q] q
  have "fst (is_value ?q) = is_value_spec ?q" by blast
  ultimately show ?thesis using p q by simp
qed

subsection \<open>Substitution\<close>

lemma replace_agree:
  "(\<forall>x \<in> fv_prod p. vm x = vm' x) \<Longrightarrow> (\<forall>a \<in> fcv_prod p. cm a = cm' a) \<Longrightarrow>
     replace_prod p vm cm = replace_prod p vm' cm'"
  "(\<forall>x \<in> fv_cons c. vm x = vm' x) \<Longrightarrow> (\<forall>a \<in> fcv_cons c. cm a = cm' a) \<Longrightarrow>
     replace_cons c vm cm = replace_cons c vm' cm'"
  "(\<forall>x \<in> fv_stmt s. vm x = vm' x) \<Longrightarrow> (\<forall>a \<in> fcv_stmt s. cm a = cm' a) \<Longrightarrow>
     replace_stmt s vm cm = replace_stmt s vm' cm'"
  "(\<forall>x \<in> fv_clause cl. vm x = vm' x) \<Longrightarrow> (\<forall>a \<in> fcv_clause cl. cm a = cm' a) \<Longrightarrow>
     replace_clause cl vm cm = replace_clause cl vm' cm'"
proof (induction p vm cm and c vm cm and s vm cm and cl vm cm
    arbitrary: vm' cm' and vm' cm' and vm' cm' and vm' cm'
    rule: replace_prod_replace_cons_replace_stmt_replace_clause.induct)
  case (3 c n s t var_map covar_map)
  have "replace_stmt s var_map (covar_map(c := None)) = replace_stmt s vm' (cm'(c := None))"
    using "3.prems" by (intro "3.IH") auto
  then show ?case by simp
next
  case (4 a n args coargs iv t var_map covar_map)
  have "map (\<lambda>arg. replace_prod arg var_map covar_map) args =
        map (\<lambda>arg. replace_prod arg vm' cm') args"
    using "4.prems" by (intro map_cong refl "4.IH"(1)) auto
  moreover have "map (\<lambda>coarg. replace_cons coarg var_map covar_map) coargs =
        map (\<lambda>coarg. replace_cons coarg vm' cm') coargs"
    using "4.prems" by (intro map_cong refl "4.IH"(2)) auto
  ultimately show ?case by simp
next
  case (5 clauses t var_map covar_map)
  have "map (\<lambda>cl. replace_clause cl var_map covar_map) clauses =
        map (\<lambda>cl. replace_clause cl vm' cm') clauses"
    using "5.prems" by (intro map_cong refl "5.IH") auto
  then show ?case by simp
next
  case (7 x n s t var_map covar_map)
  have "replace_stmt s (var_map(x := None)) covar_map = replace_stmt s (vm'(x := None)) cm'"
    using "7.prems" by (intro "7.IH") auto
  then show ?case by simp
next
  case (8 a n args coargs t var_map covar_map)
  have "map (\<lambda>arg. replace_prod arg var_map covar_map) args =
        map (\<lambda>arg. replace_prod arg vm' cm') args"
    using "8.prems" by (intro map_cong refl "8.IH"(1)) auto
  moreover have "map (\<lambda>coarg. replace_cons coarg var_map covar_map) coargs =
        map (\<lambda>coarg. replace_cons coarg vm' cm') coargs"
    using "8.prems" by (intro map_cong refl "8.IH"(2)) auto
  ultimately show ?case by simp
next
  case (9 clauses t var_map covar_map)
  have "map (\<lambda>cl. replace_clause cl var_map covar_map) clauses =
        map (\<lambda>cl. replace_clause cl vm' cm') clauses"
    using "9.prems" by (intro map_cong refl "9.IH") auto
  then show ?case by simp
next
  case (11 op l r after var_map covar_map)
  have "replace_prod l var_map covar_map = replace_prod l vm' cm'"
    using "11.prems" by (intro "11.IH"(1)) auto
  moreover have "replace_prod r var_map covar_map = replace_prod r vm' cm'"
    using "11.prems" by (intro "11.IH"(2)) auto
  moreover have "replace_cons after var_map covar_map = replace_cons after vm' cm'"
    using "11.prems" by (intro "11.IH"(3)) auto
  ultimately show ?case by simp
next
  case (12 c z other var_map covar_map)
  have "replace_prod c var_map covar_map = replace_prod c vm' cm'"
    using "12.prems" by (intro "12.IH"(1)) auto
  moreover have "replace_stmt z var_map covar_map = replace_stmt z vm' cm'"
    using "12.prems" by (intro "12.IH"(2)) auto
  moreover have "replace_stmt other var_map covar_map = replace_stmt other vm' cm'"
    using "12.prems" by (intro "12.IH"(3)) auto
  ultimately show ?case by simp
next
  case (13 p c var_map covar_map)
  have "replace_prod p var_map covar_map = replace_prod p vm' cm'"
    using "13.prems" by (intro "13.IH"(1)) auto
  moreover have "replace_cons c var_map covar_map = replace_cons c vm' cm'"
    using "13.prems" by (intro "13.IH"(2)) auto
  ultimately show ?case by simp
next
  case (14 d n args coargs var_map covar_map)
  have "map (\<lambda>arg. replace_prod arg var_map covar_map) args =
        map (\<lambda>arg. replace_prod arg vm' cm') args"
    using "14.prems" by (intro map_cong refl "14.IH"(1)) auto
  moreover have "map (\<lambda>coarg. replace_cons coarg var_map covar_map) coargs =
        map (\<lambda>coarg. replace_cons coarg vm' cm') coargs"
    using "14.prems" by (intro map_cong refl "14.IH"(2)) auto
  ultimately show ?case by simp
next
  case (15 a n ans cns ids coids s var_map covar_map)
  have "replace_stmt s (fold (\<lambda>arg m. m(arg := None)) ids var_map)
                       (fold (\<lambda>coarg m. m(coarg := None)) coids covar_map) =
        replace_stmt s (fold (\<lambda>arg m. m(arg := None)) ids vm')
                       (fold (\<lambda>coarg m. m(coarg := None)) coids cm')"
    using "15.prems" by (intro "15.IH") (auto simp: fold_erase)
  then show ?case by simp
qed simp_all

lemma restrict_erase: "(m |` (- B))(x := None) = m |` (- insert x B)"
  by (auto simp add: fun_eq_iff restrict_map_def)

lemma restrict_none: "m |` (- {}) = m"
  by (simp add: restrict_map_def)

lemma restrict_erase_list:
  "(\<lambda>y. if y \<in> set ids then None else (m |` (- B)) y) = m |` (- (B \<union> set ids))"
  by (auto simp add: fun_eq_iff restrict_map_def)

text \<open>
  \<open>replace\<close> with the entries of the ids in \<open>B\<close> and \<open>C\<close> erased from its maps is the
  substitution of the specification under binders of \<open>B\<close> and \<open>C\<close>.
\<close>

lemma replace_restrict:
  "replace_prod p (vm |` (- B)) (cm |` (- C)) = subst_spec_prod B C vm cm p"
  "replace_cons c (vm |` (- B)) (cm |` (- C)) = subst_spec_cons B C vm cm c"
  "replace_stmt s (vm |` (- B)) (cm |` (- C)) = subst_spec_stmt B C vm cm s"
  "replace_clause cl (vm |` (- B)) (cm |` (- C)) = subst_spec_clause B C vm cm cl"
proof (induction B C vm cm p and B C vm cm c and B C vm cm s and B C vm cm cl
    rule: subst_spec_prod_subst_spec_cons_subst_spec_stmt_subst_spec_clause.induct)
  case (1 B C vm cm x n t)
  show ?case
    by (simp add: restrict_map_def)
next
  case (3 B C vm cm a n s t)
  show ?case
    using 3 by (simp only: replace_prod.simps subst_spec_prod.simps restrict_erase)
next
  case (7 B C vm cm x n s t)
  show ?case
    using 7 by (simp only: replace_cons.simps subst_spec_cons.simps restrict_erase)
next
  case (6 B C vm cm a n t)
  show ?case
    by (simp add: restrict_map_def)
next
  case (15 B C vm cm a n ans cns ids coids s)
  show ?case
    using 15 by (simp add: fold_erase restrict_erase_list)
qed (simp_all cong: map_cong)

text \<open>
  C10. Substitution is simultaneous. On every node, producer, consumer, statement or
  clause, and for every pair of maps, \<open>replace\<close> computes the substitution of the
  specification: each occurrence of a mapped variable (covariable) that no enclosing
  \<open>mu\<close>, \<open>mu'\<close> or clause binder of the node shadows becomes the mapped producer
  (consumer) as it stands, and nothing else changes but the forgotten \<open>is_value\<close>
  answers on the way. \<open>replace\<close> does not go into the inserted copy, whatever mapped ids
  it holds; a binder takes its own ids out of the maps for its body; and the result
  depends on the maps only through the ids that occur free in the original node: entries
  for other ids, among them ids that only occur inside replacement values or under a
  binder of the same id, change nothing. Replacing \<open>x\<close> by \<open>y\<close> and \<open>y\<close> by \<open>5\<close> at once
  in \<open>[x <END>]\<close> gives \<open>[y <END>]\<close>, where one substitution after the other gives
  \<open>[5 <END>]\<close>.
\<close>

theorem replace_simultaneous:
  "replace_prod p vm cm = subst_spec_prod {} {} vm cm p \<and>
   replace_cons c vm cm = subst_spec_cons {} {} vm cm c \<and>
   replace_stmt s vm cm = subst_spec_stmt {} {} vm cm s \<and>
   replace_clause cl vm cm = subst_spec_clause {} {} vm cm cl \<and>
   (vm x = Some q \<longrightarrow> replace_prod (Variable_prod x n t) vm cm = q) \<and>
   (cm a = Some k \<longrightarrow> replace_cons (Covariable_cons a n t) vm cm = k) \<and>
   replace_prod (Mu_prod a n s t) vm cm = Mu_prod a n (replace_stmt s vm (cm(a := None))) t \<and>
   replace_cons (Mu_cons x n s t) vm cm = Mu_cons x n (replace_stmt s (vm(x := None)) cm) t \<and>
   replace_clause (Clause sid sn ans cns ids coids s) vm cm =
     Clause sid sn ans cns ids coids
       (replace_stmt s (\<lambda>y. if y \<in> set ids then None else vm y)
                       (\<lambda>b. if b \<in> set coids then None else cm b)) \<and>
   ((\<forall>y \<in> fv_prod p. vm y = vm' y) \<and> (\<forall>b \<in> fcv_prod p. cm b = cm' b) \<longrightarrow>
      replace_prod p vm cm = replace_prod p vm' cm') \<and>
   ((\<forall>y \<in> fv_cons c. vm y = vm' y) \<and> (\<forall>b \<in> fcv_cons c. cm b = cm' b) \<longrightarrow>
      replace_cons c vm cm = replace_cons c vm' cm') \<and>
   ((\<forall>y \<in> fv_stmt s. vm y = vm' y) \<and> (\<forall>b \<in> fcv_stmt s. cm b = cm' b) \<longrightarrow>
      replace_stmt s vm cm = replace_stmt s vm' cm') \<and>
   ((\<forall>y \<in> fv_clause cl. vm y = vm' y) \<and> (\<forall>b \<in> fcv_clause cl. cm b = cm' b) \<longrightarrow>
      replace_clause cl vm cm = replace_clause cl vm' cm') \<and>
   replace_stmt (Cut_stmt (Variable_prod 0 ''x'' None) (End_cons None))
     [0 \<mapsto> Variable_prod 1 ''y'' None, 1 \<mapsto> Value_prod 5 None] Map.empty =
     Cut_stmt (Variable_prod 1 ''y'' None) (End_cons None) \<and>
   replace_stmt
     (replace_stmt (Cut_stmt (Variable_prod 0 ''x'' None) (End_cons None))
        [0 \<mapsto> Variable_prod 1 ''y'' None] Map.empty)
     [1 \<mapsto> Value_prod 5 None] Map.empty =
     Cut_stmt (Value_prod 5 None) (End_cons None)"
proof -
  have "replace_prod p vm cm = subst_spec_prod {} {} vm cm p"
    using replace_restrict(1) [of p vm "{}" cm "{}"] by (simp only: restrict_none)
  moreover have "replace_cons c vm cm = subst_spec_cons {} {} vm cm c"
    using replace_restrict(2) [of c vm "{}" cm "{}"] by (simp only: restrict_none)
  moreover have "replace_stmt s vm cm = subst_spec_stmt {} {} vm cm s"
    using replace_restrict(3) [of s vm "{}" cm "{}"] by (simp only: restrict_none)
  moreover have "replace_clause cl vm cm = subst_spec_clause {} {} vm cm cl"
    using replace_restrict(4) [of cl vm "{}" cm "{}"] by (simp only: restrict_none)
  moreover have "(\<forall>y \<in> fv_prod p. vm y = vm' y) \<and> (\<forall>b \<in> fcv_prod p. cm b = cm' b) \<longrightarrow>
      replace_prod p vm cm = replace_prod p vm' cm'"
    using replace_agree(1) by blast
  moreover have "(\<forall>y \<in> fv_cons c. vm y = vm' y) \<and> (\<forall>b \<in> fcv_cons c. cm b = cm' b) \<longrightarrow>
      replace_cons c vm cm = replace_cons c vm' cm'"
    using replace_agree(2) by blast
  moreover have "(\<forall>y \<in> fv_stmt s. vm y = vm' y) \<and> (\<forall>b \<in> fcv_stmt s. cm b = cm' b) \<longrightarrow>
      replace_stmt s vm cm = replace_stmt s vm' cm'"
    using replace_agree(3) by blast
  moreover have "(\<forall>y \<in> fv_clause cl. vm y = vm' y) \<and> (\<forall>b \<in> fcv_clause cl. cm b = cm' b) \<longrightarrow>
      replace_clause cl vm cm = replace_clause cl vm' cm'"
    using replace_agree(4) by blast
  ultimately show ?thesis
    by (simp add: fold_erase)
qed

theorem replace_simultaneous_witness:
  "replace_stmt
     (Cut_stmt (Variable_prod 0 ''x'' None)
        (Mu_cons 1 ''y'' (Cut_stmt (Variable_prod 1 ''y'' None) (Covariable_cons 0 ''k'' None)) None))
     [0 \<mapsto> Variable_prod 1 ''y'' None, 1 \<mapsto> Value_prod 5 None]
     [0 \<mapsto> End_cons None] =
   Cut_stmt (Variable_prod 1 ''y'' None)
     (Mu_cons 1 ''y'' (Cut_stmt (Variable_prod 1 ''y'' None) (End_cons None)) None) \<and>
   replace_stmt
     (Cut_stmt (Variable_prod 0 ''x'' None)
        (Mu_cons 1 ''y'' (Cut_stmt (Variable_prod 1 ''y'' None) (Covariable_cons 0 ''k'' None)) None))
     [0 \<mapsto> Variable_prod 1 ''y'' None]
     [0 \<mapsto> End_cons None] =
   Cut_stmt (Variable_prod 1 ''y'' None)
     (Mu_cons 1 ''y'' (Cut_stmt (Variable_prod 1 ''y'' None) (End_cons None)) None) \<and>
   replace_stmt
     (Ifz_stmt (Variable_prod 0 ''x'' None)
        (Arithmetic_stmt Add (Variable_prod 0 ''x'' None) (Value_prod 1 None)
           (Covariable_cons 0 ''k'' None))
        (Cut_stmt
           (Constructor_prod 1 ''Cons''
              [Variable_prod 0 ''x'' None, Variable_prod 1 ''y'' None] [] (Some False) None)
           (Case_cons
              [Clause 0 ''Nil'' [] [] [] []
                 (Call_stmt 8 ''f'' [Variable_prod 1 ''y'' None] [Covariable_cons 0 ''k'' None]),
               Clause 1 ''Cons'' [''x'', ''z''] [] [0, 2] []
                 (Cut_stmt (Variable_prod 0 ''x'' None) (Covariable_cons 0 ''k'' None))] None)))
     [0 \<mapsto> Variable_prod 1 ''y'' None, 1 \<mapsto> Value_prod 5 None]
     [0 \<mapsto> End_cons None] =
   Ifz_stmt (Variable_prod 1 ''y'' None)
     (Arithmetic_stmt Add (Variable_prod 1 ''y'' None) (Value_prod 1 None) (End_cons None))
     (Cut_stmt
        (Constructor_prod 1 ''Cons''
           [Variable_prod 1 ''y'' None, Value_prod 5 None] [] None None)
        (Case_cons
           [Clause 0 ''Nil'' [] [] [] []
              (Call_stmt 8 ''f'' [Value_prod 5 None] [End_cons None]),
            Clause 1 ''Cons'' [''x'', ''z''] [] [0, 2] []
              (Cut_stmt (Variable_prod 0 ''x'' None) (End_cons None))] None))"
proof -
  let ?s = "Cut_stmt (Variable_prod 0 ''x'' None)
        (Mu_cons 1 ''y'' (Cut_stmt (Variable_prod 1 ''y'' None) (Covariable_cons 0 ''k'' None)) None)"
  let ?s1 = "Ifz_stmt (Variable_prod 0 ''x'' None)
        (Arithmetic_stmt Add (Variable_prod 0 ''x'' None) (Value_prod 1 None)
           (Covariable_cons 0 ''k'' None))
        (Cut_stmt
           (Constructor_prod 1 ''Cons''
              [Variable_prod 0 ''x'' None, Variable_prod 1 ''y'' None] [] (Some False) None)
           (Case_cons
              [Clause 0 ''Nil'' [] [] [] []
                 (Call_stmt 8 ''f'' [Variable_prod 1 ''y'' None] [Covariable_cons 0 ''k'' None]),
               Clause 1 ''Cons'' [''x'', ''z''] [] [0, 2] []
                 (Cut_stmt (Variable_prod 0 ''x'' None) (Covariable_cons 0 ''k'' None))] None))"
  let ?vm = "[0 \<mapsto> Variable_prod 1 ''y'' None, 1 \<mapsto> Value_prod 5 None]"
  let ?vm' = "[0 \<mapsto> Variable_prod 1 ''y'' None]"
  let ?cm = "[0 \<mapsto> End_cons None]"
  have fv: "\<forall>y \<in> fv_stmt ?s. ?vm y = ?vm' y" by simp
  have fcv: "\<forall>b \<in> fcv_stmt ?s. ?cm b = ?cm b" by simp
  from replace_simultaneous [where vm = ?vm and cm = ?cm and s = ?s and vm' = ?vm' and cm' = ?cm] fv fcv
  have "replace_stmt ?s ?vm ?cm = replace_stmt ?s ?vm' ?cm" by blast
  moreover have "replace_stmt ?s ?vm' ?cm =
     Cut_stmt (Variable_prod 1 ''y'' None)
       (Mu_cons 1 ''y'' (Cut_stmt (Variable_prod 1 ''y'' None) (End_cons None)) None)"
    by simp
  moreover
  from replace_simultaneous [where vm = ?vm and cm = ?cm and s = ?s1]
  have "replace_stmt ?s1 ?vm ?cm = subst_spec_stmt {} {} ?vm ?cm ?s1" by blast
  moreover have "subst_spec_stmt {} {} ?vm ?cm ?s1 =
   Ifz_stmt (Variable_prod 1 ''y'' None)
     (Arithmetic_stmt Add (Variable_prod 1 ''y'' None) (Value_prod 1 None) (End_cons None))
     (Cut_stmt
        (Constructor_prod 1 ''Cons''
           [Variable_prod 1 ''y'' None, Value_prod 5 None] [] None None)
        (Case_cons
           [Clause 0 ''Nil'' [] [] [] []
              (Call_stmt 8 ''f'' [Value_prod 5 None] [End_cons None]),
            Clause 1 ''Cons'' [''x'', ''z''] [] [0, 2] []
              (Cut_stmt (Variable_prod 0 ''x'' None) (End_cons None))] None))"
    by simp
  ultimately show ?thesis by simp
qed
subsection \<open>Running twice\<close>

text \<open>
  The interpreter of a program whose only statement is
  \<open>(ifz (Nil) [1 <END>] [2 <END>])\<close>, which the parser accepts; the condition is a
  value but not an integer, so the first step is stuck.
\<close>

lemma run_after_finished: "finished i \<Longrightarrow> run i = Some (Inl Already_run, i)"
  by (simp add: run_def)

lemma run_sets_finished: "run i = Some (Inr results, i') \<Longrightarrow> finished i'"
  by (auto simp: run_def split: if_splits option.splits sum.splits prod.splits)

text \<open>
  C7. After \<open>run\<close> has returned results, \<open>finished\<close> is set and a second call throws
  \<open>Already_run_exception\<close> (\<open>run_sets_finished\<close>, \<open>run_after_finished\<close>). After
  a first call that ended in \<open>Stuck_computation_exception\<close> the flag is still unset:
  the second call does not throw \<open>Already_run_exception\<close> but goes on to reduce the
  statement the first call moved out of the vector.
\<close>

theorem run_again_after_stuck:
  "run (Interpreter_new 0 0
        \<lparr>definitions = [],
         statements = [Ifz_stmt (Constructor_prod 0 ''Nil'' [] [] None None)
            (Cut_stmt (Value_prod 1 None) (End_cons None))
            (Cut_stmt (Value_prod 2 None) (End_cons None))]\<rparr>) =
     Some (Inl (Stuck_computation
                 (Ifz_stmt (Constructor_prod 0 ''Nil'' [] [] (Some True) None)
                    (Cut_stmt (Value_prod 1 None) (End_cons None))
                    (Cut_stmt (Value_prod 2 None) (End_cons None)))),
           \<lparr>finished = False, n_vars = 0, n_covars = 0, interp_definitions = [],
            interp_statements = [None]\<rparr>) \<and>
   run \<lparr>finished = False, n_vars = 0, n_covars = 0, interp_definitions = [],
        interp_statements = [None]\<rparr> =
     Some (Inl Undefined_behaviour,
           \<lparr>finished = False, n_vars = 0, n_covars = 0, interp_definitions = [],
            interp_statements = [None]\<rparr>)"
  by (simp add: run_def Interpreter_new_def run_steps.simps step_ifz_def)

section \<open>Properties of the typing context\<close>

subsection \<open>Chains of forwarding links\<close>

lemma root_of_in_range: "root_of ts h r \<Longrightarrow> h < length ts \<and> r < length ts \<and> \<not> is_link (ts ! r)"
  by (induction rule: root_of.induct) auto

lemma root_of_unique: "root_of ts h r \<Longrightarrow> root_of ts h r' \<Longrightarrow> r = r'"
proof (induction arbitrary: r' rule: root_of.induct)
  case (direct h)
  from direct.prems direct.hyps show ?case
    by (cases rule: root_of.cases) (auto simp: is_link_def)
next
  case (forwarded h h' r)
  from forwarded.prems forwarded.hyps(2) have "root_of ts h' r'"
    by (cases rule: root_of.cases) (auto simp: is_link_def)
  then show ?case by (rule forwarded.IH)
qed

lemma root_of_root: "root_of ts h r \<Longrightarrow> root_of ts r r"
  by (auto dest: root_of_in_range intro: root_of.direct)

lemma is_link_iff: "is_link t \<longleftrightarrow> (\<exists>h. t = Type_handle h)"
  by (cases t) (simp_all add: is_link_def)

lemma follow_chain_root:
  "root_of ts h r \<Longrightarrow>
   \<exists>path. follow_chain ts h c = Some (Inr (r, c @ path)) \<and>
          (\<forall>x \<in> set path. x < length ts \<and> is_link (ts ! x) \<and> root_of ts x r)"
proof (induction arbitrary: c rule: root_of.induct)
  case (direct h)
  then have "follow_chain ts h c = Some (Inr (h, c))"
    by (subst follow_chain.simps) (auto simp: is_link_def split: type_instance.splits)
  then show ?case by simp
next
  case (forwarded h h' r)
  from forwarded.IH [of "c @ [h]"] obtain path where
    p: "follow_chain ts h' (c @ [h]) = Some (Inr (r, (c @ [h]) @ path))"
    and q: "\<forall>x \<in> set path. x < length ts \<and> is_link (ts ! x) \<and> root_of ts x r" by blast
  from forwarded.hyps p have "follow_chain ts h c = Some (Inr (r, c @ (h # path)))"
    by (subst follow_chain.simps) simp
  moreover have "root_of ts h r" using forwarded.hyps by (rule root_of.forwarded)
  ultimately show ?case using q forwarded.hyps by (intro exI [of _ "h # path"]) (simp add: is_link_def)
qed

lemma follow_chain_bad: "h \<ge> length ts \<Longrightarrow> follow_chain ts h c = Some (Inl Bad_handle)"
  by (subst follow_chain.simps) simp

lemma fold_update_nth:
  "x < length ts \<Longrightarrow>
   fold (\<lambda>ref s. s[ref := v]) xs ts ! x = (if x \<in> set xs then v else ts ! x)"
  by (induction xs arbitrary: ts) (auto simp: nth_list_update)

lemma fold_update_length: "length (fold (\<lambda>ref s. s[ref := v]) xs ts) = length ts"
  by (induction xs arbitrary: ts) auto

lemma try_dereference_cases:
  assumes "has_roots ts"
  obtains (bad) "h \<ge> length ts" "try_dereference ts h = Some (Inl Bad_handle)"
  | (ok) r ts' where "h < length ts" "try_dereference ts h = Some (Inr (r, ts'))"
      "root_of ts h r" "compressed ts ts'"
proof (cases "h < length ts")
  case False
  then show ?thesis by (intro bad) (simp_all add: try_dereference_def follow_chain_bad)
next
  case True
  with assms obtain r where r: "root_of ts h r" by (auto simp: has_roots_def)
  from follow_chain_root [OF r, of "[]"] obtain path where
    p: "follow_chain ts h [] = Some (Inr (r, path))"
    and q: "\<forall>x \<in> set path. x < length ts \<and> is_link (ts ! x) \<and> root_of ts x r" by auto
  let ?ts' = "fold (\<lambda>reference s. s[reference := Type_handle r]) (butlast path) ts"
  have "compressed ts ?ts'"
    unfolding compressed_def
  proof (intro conjI allI impI)
    show "length ?ts' = length ts" by (rule fold_update_length)
    fix x assume x: "x < length ts"
    show "?ts' ! x = ts ! x \<or> is_link (ts ! x) \<and> (\<exists>r'. root_of ts x r' \<and> ?ts' ! x = Type_handle r')"
    proof (cases "x \<in> set (butlast path)")
      case False
      with x show ?thesis by (simp add: fold_update_nth)
    next
      case True
      then have "x \<in> set path" by (rule in_set_butlastD)
      with q x True show ?thesis by (auto simp: fold_update_nth)
    qed
  qed
  with True p r show ?thesis by (intro ok [of r ?ts']) (simp_all add: try_dereference_def)
qed

lemma try_dereference_const_root:
  "root_of ts h r \<Longrightarrow> try_dereference_const ts h = Some (Inr r)"
  using follow_chain_root [of ts h r "[]"] by (auto simp: try_dereference_const_def)



lemma follow_chain_Some_root_aux:
  assumes "follow_chain ts h c = Some y"
  shows "\<forall>r chain. y = Inr (r, chain) \<longrightarrow> root_of ts h r"
proof (rule follow_chain.raw_induct [OF _ assms])
  fix f ts' t c' y'
  assume IH: "\<And>ts t c y. f ts t c = Some y \<Longrightarrow> \<forall>r chain. y = Inr (r, chain) \<longrightarrow> root_of ts t r"
    and eq: "(if length ts' \<le> t then Some (Inl Bad_handle)
              else case ts' ! t of
                     Type_handle nxt \<Rightarrow> f ts' nxt (c' @ [t])
                   | _ \<Rightarrow> Some (Inr (t, c'))) = Some y'"
  show "\<forall>r chain. y' = Inr (r, chain) \<longrightarrow> root_of ts' t r"
  proof (intro allI impI)
    fix r chain assume y: "y' = Inr (r, chain)"
    with eq have t: "t < length ts'" by (auto split: if_splits)
    show "root_of ts' t r"
    proof (cases "ts' ! t")
      case (Type_handle nxt)
      with eq t have "f ts' nxt (c' @ [t]) = Some y'" by simp
      from IH [OF this] y have "root_of ts' nxt r" by simp
      with t Type_handle show ?thesis by (auto intro: root_of.forwarded)
    next
      case (Type_var v)
      with eq y t show ?thesis by (auto intro!: root_of.direct simp: is_link_def)
    next
      case (Concrete_type tid ps)
      with eq y t show ?thesis by (auto intro!: root_of.direct simp: is_link_def)
    qed
  qed
qed

lemma follow_chain_Some_root:
  "follow_chain ts h c = Some y \<Longrightarrow> y = Inr (r, chain) \<Longrightarrow> root_of ts h r"
  using follow_chain_Some_root_aux by blast

lemma forward_acyclic_iff: "forward_acyclic ts \<longleftrightarrow> has_roots ts"
proof
  assume a: "forward_acyclic ts"
  show "has_roots ts" unfolding has_roots_def
  proof (intro allI impI)
    fix h assume h: "h < length ts"
    from a h have "case try_dereference_const ts h of Some (Inr r) \<Rightarrow> True | _ \<Rightarrow> False"
      by (simp add: forward_acyclic_def list_all_iff)
    then obtain r where "try_dereference_const ts h = Some (Inr r)"
      by (cases "try_dereference_const ts h") (auto split: sum.splits)
    then obtain chain where "follow_chain ts h [] = Some (Inr (r, chain))"
      by (auto simp: try_dereference_const_def split: option.splits sum.splits)
    then have "root_of ts h r" by (rule follow_chain_Some_root) simp
    then show "\<exists>r. root_of ts h r" ..
  qed
next
  assume "has_roots ts"
  then show "forward_acyclic ts"
    by (auto simp: forward_acyclic_def has_roots_def list_all_iff
        dest!: try_dereference_const_root)
qed

lemma compressed_refl: "compressed ts ts"
  by (simp add: compressed_def)

lemma compressed_root_of:
  assumes c: "compressed ts ts'" and r: "root_of ts h r"
  shows "root_of ts' h r"
  using r
proof (induction rule: root_of.induct)
  case (direct h)
  with c have "ts' ! h = ts ! h" "h < length ts'" by (auto simp: compressed_def)
  with direct show ?case by (auto intro: root_of.direct)
next
  case (forwarded h h' r)
  from root_of_in_range [OF forwarded.hyps(3)] have rr: "r < length ts" "\<not> is_link (ts ! r)"
    by simp_all
  with c have r': "ts' ! r = ts ! r" "r < length ts'" by (auto simp: compressed_def)
  with rr have rroot: "root_of ts' r r" by (auto intro: root_of.direct)
  from c forwarded.hyps(1) have h': "h < length ts'" by (simp add: compressed_def)
  from c forwarded.hyps(1)
  consider "ts' ! h = ts ! h" | r0 where "root_of ts h r0" "ts' ! h = Type_handle r0"
    by (auto simp: compressed_def)
  then show ?case
  proof cases
    case 1
    with forwarded h' show ?thesis by (auto intro: root_of.forwarded)
  next
    case 2
    have "root_of ts h r" using forwarded.hyps by (rule root_of.forwarded)
    with 2 have "r0 = r" by (auto dest: root_of_unique)
    with 2 h' rroot show ?thesis by (auto intro: root_of.forwarded)
  qed
qed

lemma compressed_has_roots:
  assumes c: "compressed ts ts'" and j: "has_roots ts"
  shows "has_roots ts'"
  unfolding has_roots_def
proof (intro allI impI)
  fix h assume "h < length ts'"
  with c have "h < length ts" by (simp add: compressed_def)
  with j obtain r where "root_of ts h r" by (auto simp: has_roots_def)
  from compressed_root_of [OF c this] show "\<exists>r. root_of ts' h r" ..
qed

lemma compressed_root_of_rev:
  assumes c: "compressed ts ts'" and j: "has_roots ts" and r: "root_of ts' h r"
  shows "root_of ts h r"
proof -
  from r c have "h < length ts" by (auto dest: root_of_in_range simp: compressed_def)
  with j obtain q where q: "root_of ts h q" by (auto simp: has_roots_def)
  from compressed_root_of [OF c q] r have "q = r" by (rule root_of_unique)
  with q show ?thesis by simp
qed

lemma compressed_trans:
  assumes a: "compressed ts ts'" and b: "compressed ts' ts''" and j: "has_roots ts"
  shows "compressed ts ts''"
  unfolding compressed_def
proof (intro conjI allI impI)
  from a b show "length ts'' = length ts" by (simp add: compressed_def)
  fix h assume h: "h < length ts"
  from a h consider "ts' ! h = ts ! h"
    | r where "is_link (ts ! h)" "root_of ts h r" "ts' ! h = Type_handle r"
    by (auto simp: compressed_def)
  then show "ts'' ! h = ts ! h \<or> is_link (ts ! h) \<and> (\<exists>r. root_of ts h r \<and> ts'' ! h = Type_handle r)"
  proof cases
    case 1
    from b a h consider "ts'' ! h = ts' ! h"
      | r where "is_link (ts' ! h)" "root_of ts' h r" "ts'' ! h = Type_handle r"
      by (auto simp: compressed_def)
    then show ?thesis
    proof cases
      case 1
      with \<open>ts' ! h = ts ! h\<close> show ?thesis by simp
    next
      case 2
      from compressed_root_of_rev [OF a j 2(2)] 2 \<open>ts' ! h = ts ! h\<close> show ?thesis by auto
    qed
  next
    case 2
    from b a h consider "ts'' ! h = ts' ! h"
      | r' where "is_link (ts' ! h)" "root_of ts' h r'" "ts'' ! h = Type_handle r'"
      by (auto simp: compressed_def)
    then show ?thesis
    proof cases
      case 1
      with 2 show ?thesis by auto
    next
      case 2
      from compressed_root_of_rev [OF a j 2(2)] 2 \<open>is_link (ts ! h)\<close> show ?thesis by auto
    qed
  qed
qed

lemma compressed_direct:
  "compressed ts ts' \<Longrightarrow> h < length ts \<Longrightarrow> \<not> is_link (ts ! h) \<Longrightarrow> ts' ! h = ts ! h"
  by (auto simp: compressed_def)

lemma compressed_length: "compressed ts ts' \<Longrightarrow> length ts' = length ts"
  by (simp add: compressed_def)


lemma extends_refl: "has_roots ts \<Longrightarrow> extends ts ts"
  by (auto simp: extends_def dest: root_of_root root_of_unique)

lemma compressed_extends:
  assumes c: "compressed ts ts'" and j: "has_roots ts"
  shows "extends ts ts'"
  unfolding extends_def
proof (intro conjI allI impI)
  from c show "length ts' = length ts" by (simp add: compressed_def)
  from c j show "has_roots ts'" by (rule compressed_has_roots)
next
  fix h tid ps assume "h < length ts" "ts ! h = Concrete_type tid ps"
  with c show "ts' ! h = ts ! h" by (auto simp: compressed_def is_link_def)
next
  fix h r r' assume r: "root_of ts h r" and r': "root_of ts' r r'"
  from compressed_root_of [OF c root_of_root [OF r]] r' have "r' = r" by (auto dest: root_of_unique)
  with compressed_root_of [OF c r] show "root_of ts' h r'" by simp
qed

lemma extends_has_roots: "extends ts ts' \<Longrightarrow> has_roots ts'"
  by (simp add: extends_def)

lemma extends_length: "extends ts ts' \<Longrightarrow> length ts' = length ts"
  by (simp add: extends_def)

lemma extends_trans:
  assumes a: "extends ts ts'" and b: "extends ts' ts''"
  shows "extends ts ts''"
  unfolding extends_def
proof (intro conjI allI impI)
  from a b show "length ts'' = length ts" by (simp add: extends_def)
  from b show "has_roots ts''" by (simp add: extends_def)
next
  fix h tid ps assume h: "h < length ts" "ts ! h = Concrete_type tid ps"
  with a have "ts' ! h = ts ! h" by (simp add: extends_def)
  moreover with h a b have "ts'' ! h = ts' ! h" by (simp add: extends_def)
  ultimately show "ts'' ! h = ts ! h" by simp
next
  fix h r r'' assume r: "root_of ts h r" and r'': "root_of ts'' r r''"
  from r have "r < length ts'" using a by (auto dest: root_of_in_range simp: extends_def)
  with a obtain r' where r': "root_of ts' r r'" by (auto simp: extends_def has_roots_def)
  from a r r' have hr': "root_of ts' h r'" by (auto simp: extends_def)
  from r' have "r' < length ts''" using b by (auto dest: root_of_in_range simp: extends_def)
  with b obtain q where q: "root_of ts'' r' q" by (auto simp: extends_def has_roots_def)
  from b hr' q have hq: "root_of ts'' h q" by (auto simp: extends_def)
  from b r' q have "root_of ts'' r q" by (auto simp: extends_def)
  with r'' have "q = r''" by (auto dest: root_of_unique)
  with hq show "root_of ts'' h r''" by simp
qed

lemma bind_root_of:
  assumes a: "a < length ts" "\<not> is_link (ts ! a)" and b: "b < length ts" "\<not> is_link (ts ! b)"
    and ab: "a \<noteq> b" and r: "root_of ts h r"
  shows "root_of (ts[a := Type_handle b]) h (if r = a then b else r)"
  using r
proof (induction rule: root_of.induct)
  case (direct h)
  have bb: "root_of (ts[a := Type_handle b]) b b"
    using b ab by (intro root_of.direct) simp_all
  show ?case
  proof (cases "h = a")
    case True
    with a bb show ?thesis by (auto intro: root_of.forwarded)
  next
    case False
    with direct show ?thesis by (auto intro: root_of.direct)
  qed
next
  case (forwarded h h' r)
  from forwarded.hyps(2) a have "h \<noteq> a" by (auto simp: is_link_def)
  with forwarded show ?case by (auto intro: root_of.forwarded)
qed

lemma bind_extends:
  assumes j: "has_roots ts"
    and a: "a < length ts" "\<not> is_link (ts ! a)" "\<forall>tid ps. ts ! a \<noteq> Concrete_type tid ps"
    and b: "b < length ts" "\<not> is_link (ts ! b)" and ab: "a \<noteq> b"
  shows "extends ts (ts[a := Type_handle b])"
  unfolding extends_def
proof (intro conjI allI impI)
  show "length (ts[a := Type_handle b]) = length ts" by simp
  show "has_roots (ts[a := Type_handle b])"
    using j bind_root_of [OF a(1,2) b ab] by (fastforce simp: has_roots_def)
next
  fix h tid ps assume "h < length ts" "ts ! h = Concrete_type tid ps"
  with a show "ts[a := Type_handle b] ! h = ts ! h" by (cases "h = a") auto
next
  fix h r r' assume r: "root_of ts h r" and r': "root_of (ts[a := Type_handle b]) r r'"
  from bind_root_of [OF a(1,2) b ab root_of_root [OF r]] r'
  have "r' = (if r = a then b else r)" by (auto dest: root_of_unique)
  with bind_root_of [OF a(1,2) b ab r] show "root_of (ts[a := Type_handle b]) h r'" by simp
qed

lemma occurs_params_compressed:
  assumes rec: "\<And>ts a b res ts'. has_roots ts \<Longrightarrow> rec ts a b = Some (res, ts') \<Longrightarrow> compressed ts ts'"
  shows "has_roots ts \<Longrightarrow> occurs_params rec ts a ps = Some (res, ts') \<Longrightarrow> compressed ts ts'"
proof (induction ps arbitrary: ts)
  case Nil
  then show ?case by (simp add: compressed_refl)
next
  case (Cons p ps)
  show ?case
  proof (cases "p = a")
    case True
    with Cons.prems show ?thesis by (simp add: compressed_refl)
  next
    case False
    with Cons.prems obtain r1 ts1 where r1: "rec ts a p = Some (r1, ts1)"
      by (auto split: option.splits)
    from rec [OF Cons.prems(1) r1] have c1: "compressed ts ts1" .
    show ?thesis
    proof (cases "r1 = Inr False")
      case True
      with Cons.prems False r1 have "occurs_params rec ts1 a ps = Some (res, ts')" by simp
      from Cons.IH [OF compressed_has_roots [OF c1 Cons.prems(1)] this]
      have "compressed ts1 ts'" .
      with c1 show ?thesis using Cons.prems(1) by (rule compressed_trans)
    next
      case f: False
      with Cons.prems False r1 have "ts' = ts1"
        by (auto split: sum.splits bool.splits)
      with c1 show ?thesis by simp
    qed
  qed
qed

lemma occurs_compressed:
  "has_roots ts \<Longrightarrow> occurs n ts a b = Some (res, ts') \<Longrightarrow> compressed ts ts'"
proof (induction n arbitrary: ts a b res ts')
  case 0
  then show ?case by simp
next
  case (Suc n)
  note j = Suc.prems(1)
  show ?case
  proof (cases "a < length ts \<and> (\<exists>v. ts ! a = Type_var v)")
    case False
    with Suc.prems(2) have "ts' = ts"
      by (auto split: type_instance.splits if_splits)
    then show ?thesis by (simp add: compressed_refl)
  next
    case True
    then obtain v where a: "a < length ts" "ts ! a = Type_var v" by blast
    show ?thesis
    proof (cases rule: try_dereference_cases [OF j, of b, case_names bad ok])
      case bad
      with Suc.prems(2) a have "ts' = ts" by simp
      then show ?thesis by (simp add: compressed_refl)
    next
      case (ok r ts1)
      note c1 = ok(4)
      show ?thesis
      proof (cases "ts1 ! r")
        case (Type_var x1)
        with Suc.prems(2) a ok have "ts' = ts1" by simp
        with c1 show ?thesis by simp
      next
        case (Concrete_type tid ps)
        with Suc.prems(2) a ok have "occurs_params (occurs n) ts1 a ps = Some (res, ts')" by simp
        from occurs_params_compressed [of "occurs n", OF Suc.IH compressed_has_roots [OF c1 j] this]
        have "compressed ts1 ts'" .
        with c1 show ?thesis using j by (rule compressed_trans)
      next
        case (Type_handle x3)
        with Suc.prems(2) a ok have "ts' = ts1" by simp
        with c1 show ?thesis by simp
      qed
    qed
  qed
qed


lemma try_dereference_root:
  assumes j: "has_roots ts" and r: "root_of ts h r"
  obtains ts' where "try_dereference ts h = Some (Inr (r, ts'))" "compressed ts ts'"
proof (cases rule: try_dereference_cases [OF j, of h, case_names bad ok])
  case bad
  with r show ?thesis by (auto dest: root_of_in_range)
next
  case (ok r' ts')
  with r have "r' = r" by (auto dest: root_of_unique)
  with ok that show ?thesis by simp
qed

lemma unify_rec_Suc_cases:
  assumes j: "has_roots ts" and u: "unify_rec (Suc n) ts a b = Some (res, ts')"
  obtains (bad) ts1 where "compressed ts ts1" "res = Failed Bad_handle" "ts' = ts1"
  | (same) a1 ts2 where "root_of ts a a1" "root_of ts b a1" "compressed ts ts2"
      "res = Unified" "ts' = ts2"
  | (var) a1 b1 a2 b2 ts2 v r3 ts3 where "root_of ts a a1" "root_of ts b b1" "compressed ts ts2"
      "a1 \<noteq> b1" "(a2, b2) = (a1, b1) \<or> (a2, b2) = (b1, a1)" "ts2 ! a2 = Type_var v"
      "occurs n ts2 a2 b2 = Some (r3, ts3)" "compressed ts2 ts3"
      "(res, ts') = (case r3 of Inl e \<Rightarrow> (Failed e, ts3)
                    | Inr True \<Rightarrow> (Failed (Unification_exception Kind_occurs a2 b2), ts3)
                    | Inr False \<Rightarrow> (Unified, ts3[a2 := Type_handle b2]))"
  | (concrete) a1 b1 ts2 ta pa tb pb where "root_of ts a a1" "root_of ts b b1" "compressed ts ts2"
      "a1 \<noteq> b1" "ts2 ! a1 = Concrete_type ta pa" "ts2 ! b1 = Concrete_type tb pb"
      "if ta \<noteq> tb then res = Failed (Unification_exception Kind_mismatch a1 b1) \<and> ts' = ts2
       else if length pa \<noteq> length pb then res = Failed Ctx_assertion_failed \<and> ts' = ts2
       else unify_params (unify_rec n) ts2 pa pb = Some (res, ts')"
proof (cases rule: try_dereference_cases [OF j, of a, case_names bad_a ok_a])
  case bad_a
  with u have "res = Failed Bad_handle" "ts' = ts" by simp_all
  with bad [of ts] show ?thesis by (simp add: compressed_refl)
next
  case (ok_a a1 ts1)
  note c1 = ok_a(4)
  note j1 = compressed_has_roots [OF c1 j]
  show ?thesis
  proof (cases rule: try_dereference_cases [OF j1, of b, case_names bad_b ok_b])
    case bad_b
    with u ok_a have "res = Failed Bad_handle" "ts' = ts1" by simp_all
    with bad [of ts1] c1 show ?thesis by simp
  next
    case (ok_b b1 ts2)
    note c2 = compressed_trans [OF c1 ok_b(4) j]
    note j2 = compressed_has_roots [OF c2 j]
    from ok_b(1) c1 have bl: "b < length ts" by (simp add: compressed_def)
    from compressed_root_of_rev [OF c1 j ok_b(3)] have rb: "root_of ts b b1" .
    note ra = ok_a(3)
    from compressed_root_of [OF c2 ra] have a1d: "a1 < length ts2" "\<not> is_link (ts2 ! a1)"
      by (auto dest: root_of_in_range)
    from compressed_root_of [OF c2 rb] have b1d: "b1 < length ts2" "\<not> is_link (ts2 ! b1)"
      by (auto dest: root_of_in_range)
    from u ok_a ok_b have u': "(if a1 = b1 then Some (Unified, ts2)
     else
       (let (a2, b2) = (case ts2 ! b1 of Type_var _ \<Rightarrow> (b1, a1) | _ \<Rightarrow> (a1, b1)) in
        case ts2 ! a2 of
          Type_var _ \<Rightarrow>
            (case occurs n ts2 a2 b2 of
               None \<Rightarrow> None
             | Some (Inl e, ts3) \<Rightarrow> Some (Failed e, ts3)
             | Some (Inr True, ts3) \<Rightarrow>
                 Some (Failed (Unification_exception Kind_occurs a2 b2), ts3)
             | Some (Inr False, ts3) \<Rightarrow> Some (Unified, ts3[a2 := Type_handle b2]))
        | Concrete_type a_type_id a_params \<Rightarrow>
            (case ts2 ! b2 of
               Concrete_type b_type_id b_params \<Rightarrow>
                 if a_type_id \<noteq> b_type_id
                 then Some (Failed (Unification_exception Kind_mismatch a2 b2), ts2)
                 else if length a_params \<noteq> length b_params
                 then Some (Failed Ctx_assertion_failed, ts2)
                 else unify_params (unify_rec n) ts2 a_params b_params
             | _ \<Rightarrow> Some (Failed Ctx_assertion_failed, ts2))
        | Type_handle _ \<Rightarrow> Some (Failed Ctx_assertion_failed, ts2))) = Some (res, ts')"
      by simp
    show ?thesis
    proof (cases "a1 = b1")
      case True
      with u' have "res = Unified" "ts' = ts2" by simp_all
      with same [of a1 ts2] ra rb True c2 show ?thesis by simp
    next
      case ne: False
      define a2 where "a2 = (case ts2 ! b1 of Type_var _ \<Rightarrow> b1 | _ \<Rightarrow> a1)"
      define b2 where "b2 = (case ts2 ! b1 of Type_var _ \<Rightarrow> a1 | _ \<Rightarrow> b1)"
      have sw: "(case ts2 ! b1 of Type_var _ \<Rightarrow> (b1, a1) | _ \<Rightarrow> (a1, b1)) = (a2, b2)"
        by (simp add: a2_def b2_def split: type_instance.splits)
      have ab: "(a2, b2) = (a1, b1) \<or> (a2, b2) = (b1, a1)"
        by (simp add: a2_def b2_def split: type_instance.splits)
      show ?thesis
      proof (cases "ts2 ! a2")
        case (Type_var v)
        with u' ne sw obtain r3 ts3 where o: "occurs n ts2 a2 b2 = Some (r3, ts3)"
          by (cases "occurs n ts2 a2 b2") auto
        from occurs_compressed [OF j2 o] have c3: "compressed ts2 ts3" .
        from u' ne sw Type_var o
        have "(res, ts') = (case r3 of Inl e \<Rightarrow> (Failed e, ts3)
                    | Inr True \<Rightarrow> (Failed (Unification_exception Kind_occurs a2 b2), ts3)
                    | Inr False \<Rightarrow> (Unified, ts3[a2 := Type_handle b2]))"
          by (auto split: sum.splits bool.splits)
        from var [OF ra rb c2 ne ab Type_var o c3 this] show ?thesis .
      next
        case (Concrete_type ta pa)
        have nv: "\<forall>v. ts2 ! b1 \<noteq> Type_var v"
        proof (intro allI notI)
          fix v assume "ts2 ! b1 = Type_var v"
          then have "a2 = b1" by (simp add: a2_def)
          with Concrete_type \<open>ts2 ! b1 = Type_var v\<close> show False by simp
        qed
        then have e: "a2 = a1" "b2 = b1"
          by (simp_all add: a2_def b2_def split: type_instance.splits)
        from nv b1d obtain tb pb where cb: "ts2 ! b1 = Concrete_type tb pb"
          by (cases "ts2 ! b1") (auto simp: is_link_def)
        from u' ne sw Concrete_type cb e
        have "if ta \<noteq> tb then res = Failed (Unification_exception Kind_mismatch a1 b1) \<and> ts' = ts2
       else if length pa \<noteq> length pb then res = Failed Ctx_assertion_failed \<and> ts' = ts2
       else unify_params (unify_rec n) ts2 pa pb = Some (res, ts')"
          by (auto split: if_splits)
        from concrete [OF ra rb c2 ne _ cb this] Concrete_type e show ?thesis by simp
      next
        case (Type_handle x3)
        with ab a1d b1d show ?thesis by (auto simp: is_link_def)
      qed
    qed
  qed
qed


lemma unify_params_extends:
  assumes rec: "\<And>ts a b res ts'. has_roots ts \<Longrightarrow> rec ts a b = Some (res, ts') \<Longrightarrow> extends ts ts'"
  shows "has_roots ts \<Longrightarrow> unify_params rec ts as bs = Some (res, ts') \<Longrightarrow> extends ts ts'"
proof (induction as arbitrary: ts bs)
  case Nil
  then show ?case by (simp add: extends_refl)
next
  case (Cons a as)
  show ?case
  proof (cases bs)
    case Nil
    with Cons.prems show ?thesis by (simp add: extends_refl)
  next
    case (Cons b bs')
    with Cons.prems(2) obtain r1 ts1 where r1: "rec ts a b = Some (r1, ts1)"
      by (auto split: option.splits)
    from rec [OF Cons.prems(1) r1] have e1: "extends ts ts1" .
    show ?thesis
    proof (cases r1)
      case Unified
      with Cons.prems(2) r1 Cons have "unify_params rec ts1 as bs' = Some (res, ts')" by simp
      from Cons.IH [OF extends_has_roots [OF e1] this] have "extends ts1 ts'" .
      with e1 show ?thesis by (rule extends_trans)
    next
      case (Failed e)
      with Cons.prems(2) r1 e1 Cons show ?thesis by simp
    qed
  qed
qed

lemma unify_rec_extends:
  "has_roots ts \<Longrightarrow> unify_rec n ts a b = Some (res, ts') \<Longrightarrow> extends ts ts'"
proof (induction n arbitrary: ts a b res ts')
  case 0
  then show ?case by simp
next
  case (Suc n)
  note j = Suc.prems(1)
  from j Suc.prems(2) show ?case
  proof (cases rule: unify_rec_Suc_cases)
    case (bad ts1)
    with j show ?thesis by (simp add: compressed_extends)
  next
    case (same a1 ts2)
    with j show ?thesis by (simp add: compressed_extends)
  next
    case (var a1 b1 a2 b2 ts2 v r3 ts3)
    note c3 = compressed_trans [OF var(3) var(8) j]
    note e3 = compressed_extends [OF c3 j]
    show ?thesis
    proof (cases "r3 = Inr False")
      case False
      with var(9) have "ts' = ts3" by (auto split: sum.splits bool.splits)
      with e3 show ?thesis by simp
    next
      case True
      with var(9) have t: "ts' = ts3[a2 := Type_handle b2]" by simp
      note j2 = compressed_has_roots [OF var(3) j]
      note j3 = compressed_has_roots [OF c3 j]
      from compressed_root_of [OF var(3) var(1)] compressed_root_of [OF var(3) var(2)]
      have r2: "root_of ts2 a1 a1" "root_of ts2 b1 b1" by (auto dest: root_of_root)
      with var(5) have "root_of ts2 a2 a2" "root_of ts2 b2 b2" by auto
      from this [THEN compressed_root_of [OF var(8)]]
      have d: "a2 < length ts3" "\<not> is_link (ts3 ! a2)" "b2 < length ts3" "\<not> is_link (ts3 ! b2)"
        by (auto dest: root_of_in_range)
      from var(4,5) have ne: "a2 \<noteq> b2" by auto
      from \<open>root_of ts2 a2 a2\<close> have "a2 < length ts2" "\<not> is_link (ts2 ! a2)"
        by (auto dest: root_of_in_range)
      with var(8) have "ts3 ! a2 = ts2 ! a2" by (auto simp: compressed_def)
      with var(6) have nc: "\<forall>tid ps. ts3 ! a2 \<noteq> Concrete_type tid ps" by simp
      from bind_extends [OF j3 d(1,2) nc d(3,4) ne] e3 t show ?thesis
        by (auto intro: extends_trans)
    qed
  next
    case (concrete a1 b1 ts2 ta pa tb pb)
    note e2 = compressed_extends [OF concrete(3) j]
    note j2 = compressed_has_roots [OF concrete(3) j]
    show ?thesis
    proof (cases "ta \<noteq> tb \<or> length pa \<noteq> length pb")
      case True
      with concrete(7) e2 show ?thesis by (auto split: if_splits)
    next
      case False
      with concrete(7) have "unify_params (unify_rec n) ts2 pa pb = Some (res, ts')" by simp
      from unify_params_extends [of "unify_rec n", OF Suc.IH j2 this] e2 show ?thesis
        by (auto intro: extends_trans)
    qed
  qed
qed

lemma reaches_root:
  "reaches ts h h' \<Longrightarrow> root_of ts h r \<Longrightarrow> root_of ts h' r"
proof (induction rule: reaches.induct)
  case (link h h')
  from link.prems link.hyps show ?case
    by (cases rule: root_of.cases) (auto simp: is_link_def)
next
  case (step h h' h'')
  from step.prems step.hyps(1,2) have "root_of ts h' r"
    by (cases rule: root_of.cases) (auto simp: is_link_def)
  then show ?case by (rule step.IH)
qed

lemma reaches_trans: "reaches ts a b \<Longrightarrow> reaches ts b c \<Longrightarrow> reaches ts a c"
  by (induction rule: reaches.induct) (auto intro: reaches.step)

lemma root_of_no_cycle: "root_of ts h r \<Longrightarrow> \<not> reaches ts h h"
proof (induction rule: root_of.induct)
  case (direct h)
  show ?case
  proof
    assume "reaches ts h h"
    then show False using direct by (cases rule: reaches.cases) (auto simp: is_link_def)
  qed
next
  case (forwarded h h' r)
  show ?case
  proof
    assume c: "reaches ts h h"
    have "reaches ts h' h'"
      using c
    proof (cases rule: reaches.cases)
      case link
      with forwarded.hyps(2) have "h' = h" by simp
      with c show ?thesis by simp
    next
      case (step x)
      with forwarded.hyps(2) have x: "x = h'" by simp
      with step have r: "reaches ts h' h" by simp
      have "reaches ts h h'" using forwarded.hyps(1,2) by (rule reaches.link)
      with r show ?thesis by (rule reaches_trans)
    qed
    with forwarded.IH show False by simp
  qed
qed

lemma has_roots_no_cycle: "has_roots ts \<Longrightarrow> \<not> reaches ts h h"
proof
  assume j: "has_roots ts" and c: "reaches ts h h"
  from c have "h < length ts" by (cases rule: reaches.cases) auto
  with j obtain r where "root_of ts h r" by (auto simp: has_roots_def)
  with c show False by (auto dest: root_of_no_cycle)
qed


lemma unify_all_has_roots:
  "has_roots (types ctx) \<Longrightarrow> unify_all depth ctx calls = Some ctx' \<Longrightarrow> has_roots (types ctx')"
proof (induction calls arbitrary: ctx)
  case Nil
  then show ?case by simp
next
  case (Cons c calls)
  obtain a b where c: "c = (a, b)" by (cases c)
  with Cons.prems(2) obtain r ctx1 where u: "unify depth ctx a b = Some (r, ctx1)"
    and rest: "unify_all depth ctx1 calls = Some ctx'"
    by (auto split: option.splits)
  from u obtain ts1 where u1: "unify_rec depth (types ctx) a b = Some (r, ts1)"
    and t1: "types ctx1 = ts1"
    by (auto simp: unify_def split: option.splits)
  from unify_rec_extends [OF Cons.prems(1) u1] t1 have "has_roots (types ctx1)"
    by (simp add: extends_has_roots)
  from Cons.IH [OF this rest] show ?case .
qed


text \<open>
  C1. A call of \<open>unify\<close> on a store whose forwarding graph is acyclic leaves it acyclic,
  whether the call succeeds or ends in an exception: in the store it leaves behind no slot
  reaches itself through forwarding links and dereferencing every handle ends. The same
  holds after any sequence of calls, each continuing on the store the one before left.
\<close>

theorem unify_keeps_forward_acyclic:
  "(forward_acyclic (types ctx) \<and> unify depth ctx a b = Some (res, ctx') \<longrightarrow>
      forward_acyclic (types ctx') \<and> (\<forall>h. \<not> reaches (types ctx') h h) \<and>
      (\<forall>h < length (types ctx'). \<exists>r. try_dereference_const (types ctx') h = Some (Inr r))) \<and>
   (forward_acyclic (types ctx) \<and> unify_all depth ctx calls = Some ctx'' \<longrightarrow>
      forward_acyclic (types ctx'') \<and> (\<forall>h. \<not> reaches (types ctx'') h h) \<and>
      (\<forall>h < length (types ctx''). \<exists>r. try_dereference_const (types ctx'') h = Some (Inr r)))"
proof (intro conjI impI)
  assume h: "forward_acyclic (types ctx) \<and> unify depth ctx a b = Some (res, ctx')"
  then have "unify_all depth ctx [(a, b)] = Some ctx'" by simp
  from unify_all_has_roots [OF _ this] h have j: "has_roots (types ctx')"
    by (simp add: forward_acyclic_iff)
  then show "forward_acyclic (types ctx')" by (simp add: forward_acyclic_iff)
  from j show "\<forall>h. \<not> reaches (types ctx') h h" by (simp add: has_roots_no_cycle)
  from j show "\<forall>h < length (types ctx'). \<exists>r. try_dereference_const (types ctx') h = Some (Inr r)"
    by (auto simp: has_roots_def dest: try_dereference_const_root)
next
  assume h: "forward_acyclic (types ctx) \<and> unify_all depth ctx calls = Some ctx''"
  then have j: "has_roots (types ctx'')"
    using unify_all_has_roots [of ctx depth calls ctx''] by (simp add: forward_acyclic_iff)
  then show "forward_acyclic (types ctx'')" by (simp add: forward_acyclic_iff)
  from j show "\<forall>h. \<not> reaches (types ctx'') h h" by (simp add: has_roots_no_cycle)
  from j show "\<forall>h < length (types ctx''). \<exists>r. try_dereference_const (types ctx'') h = Some (Inr r)"
    by (auto simp: has_roots_def dest: try_dereference_const_root)
qed

theorem unify_keeps_forward_acyclic_witness:
  "forward_acyclic (types 
     \<lparr>type_prototypes = [], type_names = [], type_structors = Map.empty, abstractions = [],
      types = [Concrete_type 2 [1, 2], Type_var 0, Type_var 1, Concrete_type 2 [4, 4],
               Concrete_type 0 []]\<rparr>) \<and>
   unify_all 5 
     \<lparr>type_prototypes = [], type_names = [], type_structors = Map.empty, abstractions = [],
      types = [Concrete_type 2 [1, 2], Type_var 0, Type_var 1, Concrete_type 2 [4, 4],
               Concrete_type 0 []]\<rparr> [(1, 0), (0, 3)] = Some 
     \<lparr>type_prototypes = [], type_names = [], type_structors = Map.empty, abstractions = [],
      types = [Concrete_type 2 [1, 2], Type_handle 4, Type_handle 4, Concrete_type 2 [4, 4],
               Concrete_type 0 []]\<rparr> \<and>
   forward_acyclic (types 
     \<lparr>type_prototypes = [], type_names = [], type_structors = Map.empty, abstractions = [],
      types = [Concrete_type 2 [1, 2], Type_handle 4, Type_handle 4, Concrete_type 2 [4, 4],
               Concrete_type 0 []]\<rparr>) \<and>
   try_dereference_const (types 
     \<lparr>type_prototypes = [], type_names = [], type_structors = Map.empty, abstractions = [],
      types = [Concrete_type 2 [1, 2], Type_handle 4, Type_handle 4, Concrete_type 2 [4, 4],
               Concrete_type 0 []]\<rparr>) 1 = Some (Inr 4)"
proof -
  let ?c0 = "\<lparr>type_prototypes = [], type_names = [], type_structors = Map.empty, abstractions = [],
      types = [Concrete_type 2 [1, 2], Type_var 0, Type_var 1, Concrete_type 2 [4, 4],
               Concrete_type 0 []]\<rparr>"
  let ?c1 = "\<lparr>type_prototypes = [], type_names = [], type_structors = Map.empty, abstractions = [],
      types = [Concrete_type 2 [1, 2], Type_handle 4, Type_handle 4, Concrete_type 2 [4, 4],
               Concrete_type 0 []]\<rparr>"
  have a: "forward_acyclic (types  ?c0)"
    by (simp add: forward_acyclic_def try_dereference_const_def follow_chain.simps upt_rec)
  have u: "unify_all 5  ?c0 [(1, 0), (0, 3)] = Some  ?c1"
    by (simp add: unify_def eval_nat_numeral try_dereference_def follow_chain.simps)
  from unify_keeps_forward_acyclic [of  ?c0 5 0 0 Unified  ?c0 "[(1, 0), (0, 3)]"  ?c1] a u
  have "forward_acyclic (types  ?c1)" by blast
  moreover have "try_dereference_const (types  ?c1) 1 = Some (Inr 4)"
    by (simp add: try_dereference_const_def follow_chain.simps)
  ultimately show ?thesis using a u by blast
qed

subsection \<open>Unifying twice\<close>

lemma unify_rec_same_root:
  assumes j: "has_roots S" and a: "root_of S a q" and b: "root_of S b q"
  shows "\<exists>S2. unify_rec (Suc n) S a b = Some (Unified, S2) \<and> compressed S S2"
proof -
  from try_dereference_root [OF j a] obtain S1 where
    d1: "try_dereference S a = Some (Inr (q, S1))" and c1: "compressed S S1" by blast
  note j1 = compressed_has_roots [OF c1 j]
  from try_dereference_root [OF j1 compressed_root_of [OF c1 b]] obtain S2 where
    d2: "try_dereference S1 b = Some (Inr (q, S2))" and c2: "compressed S1 S2" by blast
  from d1 d2 have "unify_rec (Suc n) S a b = Some (Unified, S2)" by simp
  with compressed_trans [OF c1 c2 j] show ?thesis by blast
qed

lemma unify_params_again:
  assumes ext: "\<And>ts a b res ts'. has_roots ts \<Longrightarrow> rec ts a b = Some (res, ts') \<Longrightarrow> extends ts ts'"
    and again: "\<And>ts a b ts1 S. has_roots ts \<Longrightarrow> rec ts a b = Some (Unified, ts1) \<Longrightarrow>
       extends ts1 S \<Longrightarrow> \<exists>S3. rec S a b = Some (Unified, S3) \<and> compressed S S3"
  shows "has_roots ts \<Longrightarrow> unify_params rec ts as bs = Some (Unified, ts1) \<Longrightarrow> extends ts1 S \<Longrightarrow>
     \<exists>S3. unify_params rec S as bs = Some (Unified, S3) \<and> compressed S S3"
proof (induction as arbitrary: ts bs S)
  case Nil
  then show ?case by (auto simp: compressed_refl)
next
  case (Cons a as)
  show ?case
  proof (cases bs)
    case Nil
    then show ?thesis by (auto simp: compressed_refl)
  next
    case (Cons b bs')
    with Cons.prems(2) obtain r1 tsA where r1: "rec ts a b = Some (r1, tsA)"
      by (auto split: option.splits)
    with Cons.prems(2) Cons have u: "r1 = Unified"
      and rest: "unify_params rec tsA as bs' = Some (Unified, ts1)"
      by (cases r1; simp)+
    from ext [OF Cons.prems(1) r1] have eA: "extends ts tsA" .
    note jA = extends_has_roots [OF eA]
    from unify_params_extends [of rec, OF ext jA rest] have e1: "extends tsA ts1" .
    note jS = extends_has_roots [OF Cons.prems(3)]
    from again [OF Cons.prems(1) r1 [unfolded u] extends_trans [OF e1 Cons.prems(3)]]
    obtain S1 where s1: "rec S a b = Some (Unified, S1)" and c1: "compressed S S1" by blast
    from extends_trans [OF Cons.prems(3) compressed_extends [OF c1 jS]]
    have "extends ts1 S1" .
    from Cons.IH [OF jA rest this] obtain S3 where
      s3: "unify_params rec S1 as bs' = Some (Unified, S3)" and c3: "compressed S1 S3" by blast
    from s1 s3 Cons have "unify_params rec S (a # as) bs = Some (Unified, S3)" by simp
    with compressed_trans [OF c1 c3 jS] show ?thesis by blast
  qed
qed

lemma unify_rec_again:
  "has_roots ts \<Longrightarrow> unify_rec n ts a b = Some (Unified, ts1) \<Longrightarrow> extends ts1 S \<Longrightarrow>
     \<exists>S3. unify_rec n S a b = Some (Unified, S3) \<and> compressed S S3"
proof (induction n arbitrary: ts a b ts1 S)
  case 0
  then show ?case by simp
next
  case (Suc n)
  note j = Suc.prems(1) and e1S = Suc.prems(3)
  note jS = extends_has_roots [OF e1S]
  from unify_rec_extends [OF j Suc.prems(2)] have e01: "extends ts ts1" .
  note e0S = extends_trans [OF e01 e1S]
  have lenS: "length S = length ts" using e0S by (rule extends_length)
  from j Suc.prems(2) show ?case
  proof (cases rule: unify_rec_Suc_cases)
    case (bad ts1)
    then show ?thesis by simp
  next
    case (same a1 ts2)
    from same(1) lenS have "a1 < length S" by (auto dest: root_of_in_range)
    with jS obtain q where q: "root_of S a1 q" by (auto simp: has_roots_def)
    from e0S same(1,2) q have "root_of S a q" "root_of S b q" by (auto simp: extends_def)
    with jS show ?thesis by (rule unify_rec_same_root)
  next
    case (var a1 b1 a2 b2 ts2 v r3 ts3)
    from var(9) have r3: "r3 = Inr False" and t1: "ts1 = ts3[a2 := Type_handle b2]"
      by (auto split: sum.splits bool.splits)
    note c3 = compressed_trans [OF var(3) var(8) j]
    from compressed_root_of [OF c3 var(1)] compressed_root_of [OF c3 var(2)]
    have r: "root_of ts3 a a1" "root_of ts3 b b1" .
    then have "root_of ts3 a1 a1" "root_of ts3 b1 b1" by (auto dest: root_of_root)
    with var(5) have "root_of ts3 a2 a2" "root_of ts3 b2 b2" by auto
    then have d: "a2 < length ts3" "\<not> is_link (ts3 ! a2)" "b2 < length ts3" "\<not> is_link (ts3 ! b2)"
      by (auto dest: root_of_in_range)
    from var(4,5) have ne: "a2 \<noteq> b2" by auto
    from bind_root_of [OF d ne r(1)] var(5) t1 have ra: "root_of ts1 a b2" by auto
    from bind_root_of [OF d ne r(2)] var(5) t1 have rb: "root_of ts1 b b2" by auto
    from d(3) c3 lenS have "b2 < length S" by (simp add: compressed_def)
    with jS obtain q where q: "root_of S b2 q" by (auto simp: has_roots_def)
    from e1S ra rb q have "root_of S a q" "root_of S b q" by (auto simp: extends_def)
    with jS show ?thesis by (rule unify_rec_same_root)
  next
    case (concrete a1 b1 ts2 ta pa tb pb)
    from concrete(7) have tt: "ta = tb" and ll: "length pa = length pb"
      and up: "unify_params (unify_rec n) ts2 pa pb = Some (Unified, ts1)"
      by (auto split: if_splits)
    note j2 = compressed_has_roots [OF concrete(3) j]
    from unify_params_extends [of "unify_rec n", OF unify_rec_extends j2 up]
    have e21: "extends ts2 ts1" .
    note e2S = extends_trans [OF e21 e1S]
    from compressed_root_of [OF concrete(3) concrete(1)] compressed_root_of [OF concrete(3) concrete(2)]
    have r2: "root_of ts2 a a1" "root_of ts2 b b1" .
    then have in2: "a1 < length ts2" "b1 < length ts2" by (auto dest: root_of_in_range)
    with e2S concrete(5,6) have cS: "S ! a1 = Concrete_type ta pa" "S ! b1 = Concrete_type tb pb"
      by (auto simp: extends_def)
    from in2 e2S have inS: "a1 < length S" "b1 < length S" by (simp_all add: extends_def)
    with cS have "root_of S a1 a1" "root_of S b1 b1"
      by (auto intro!: root_of.direct simp: is_link_def)
    with e2S r2 have rS: "root_of S a a1" "root_of S b b1" by (auto simp: extends_def)
    from try_dereference_root [OF jS rS(1)] obtain S1 where
      d1: "try_dereference S a = Some (Inr (a1, S1))" and c1: "compressed S S1" by blast
    note j1 = compressed_has_roots [OF c1 jS]
    from try_dereference_root [OF j1 compressed_root_of [OF c1 rS(2)]] obtain S2 where
      d2: "try_dereference S1 b = Some (Inr (b1, S2))" and c2: "compressed S1 S2" by blast
    note c12 = compressed_trans [OF c1 c2 jS]
    from compressed_direct [OF c12 inS(1)] compressed_direct [OF c12 inS(2)] cS
    have c2S: "S2 ! a1 = Concrete_type ta pa" "S2 ! b1 = Concrete_type tb pb"
      by (simp_all add: is_link_def)
    note e1S2 = extends_trans [OF e1S compressed_extends [OF c12 jS]]
    have "\<exists>S3. unify_params (unify_rec n) S2 pa pb = Some (Unified, S3) \<and> compressed S2 S3"
    proof (rule unify_params_again [where rec = "unify_rec n" and ts = ts2 and ?ts1.0 = ts1])
      show "has_roots ts2" by (rule j2)
      show "unify_params (unify_rec n) ts2 pa pb = Some (Unified, ts1)" by (rule up)
      show "extends ts1 S2" by (rule e1S2)
    next
      fix ts a b res ts'
      assume "has_roots ts" "unify_rec n ts a b = Some (res, ts')"
      then show "extends ts ts'" by (rule unify_rec_extends)
    next
      fix ts a b ts1 S
      assume "has_roots ts" "unify_rec n ts a b = Some (Unified, ts1)" "extends ts1 S"
      then show "\<exists>S3. unify_rec n S a b = Some (Unified, S3) \<and> compressed S S3"
        by (rule Suc.IH)
    qed
    then obtain S3 where s3: "unify_params (unify_rec n) S2 pa pb = Some (Unified, S3)"
      and c3: "compressed S2 S3" by blast
    from d1 d2 c2S concrete(4) tt ll s3
    have "unify_rec (Suc n) S a b = Some (Unified, S3)" by simp
    with compressed_trans [OF c12 c3 jS] show ?thesis by blast
  qed
qed


lemma compressed_get_type_instance:
  assumes c: "compressed ts ts'" and j: "has_roots ts"
  shows "try_dereference_const ts' h = try_dereference_const ts h \<and>
         (\<forall>r. try_dereference_const ts h = Some (Inr r) \<longrightarrow> ts' ! r = ts ! r)"
proof (cases "h < length ts")
  case False
  with c show ?thesis
    by (simp add: try_dereference_const_def follow_chain_bad compressed_def)
next
  case True
  with j obtain r where r: "root_of ts h r" by (auto simp: has_roots_def)
  from compressed_root_of [OF c r] have "try_dereference_const ts' h = Some (Inr r)"
    by (rule try_dereference_const_root)
  moreover from r have "try_dereference_const ts h = Some (Inr r)"
    by (rule try_dereference_const_root)
  moreover from r c have "ts' ! r = ts ! r"
    by (auto dest: root_of_in_range simp: compressed_def)
  ultimately show ?thesis by simp
qed


text \<open>
  C5. When \<open>unify a b\<close> has succeeded on a store with an acyclic forwarding graph, calling
  \<open>unify a b\<close> again on the store it left succeeds (within the same bound on the depth of
  the recursion) and is a no-op: a slot changes only from a forwarding link to the link that
  points straight at the end of its chain, the other fields of the context are the same,
  and every handle dereferences to the same type instance as before.
\<close>

theorem unify_idempotent:
  "forward_acyclic (types ctx) \<and> unify depth ctx a b = Some (Unified, ctx1) \<longrightarrow>
     (\<exists>ctx2. unify depth ctx1 a b = Some (Unified, ctx2) \<and>
        ctx2 = ctx1\<lparr>types := types ctx2\<rparr> \<and>
        length (types ctx2) = length (types ctx1) \<and>
        (\<forall>h < length (types ctx1).
           types ctx2 ! h = types ctx1 ! h \<or>
           (is_link (types ctx1 ! h) \<and>
            (\<exists>r. try_dereference_const (types ctx1) h = Some (Inr r) \<and>
                 types ctx2 ! h = Type_handle r))) \<and>
        (\<forall>h. get_type_instance ctx2 h = get_type_instance ctx1 h))"
proof
  assume h: "forward_acyclic (types ctx) \<and> unify depth ctx a b = Some (Unified, ctx1)"
  then have j: "has_roots (types ctx)" by (simp add: forward_acyclic_iff)
  from h have u: "unify_rec depth (types ctx) a b = Some (Unified, types ctx1)"
    by (auto simp: unify_def split: option.splits)
  from unify_rec_extends [OF j u] have j1: "has_roots (types ctx1)" by (rule extends_has_roots)
  from unify_rec_again [OF j u extends_refl [OF j1]] obtain S3 where
    s3: "unify_rec depth (types ctx1) a b = Some (Unified, S3)"
    and c: "compressed (types ctx1) S3" by blast
  let ?ctx2 = "ctx1\<lparr>types := S3\<rparr>"
  from s3 have "unify depth ctx1 a b = Some (Unified, ?ctx2)" by (simp add: unify_def)
  moreover have "?ctx2 = ctx1\<lparr>types := types ?ctx2\<rparr>" by simp
  moreover from c have "length (types ?ctx2) = length (types ctx1)" by (simp add: compressed_def)
  moreover have "\<forall>h < length (types ctx1).
           types ?ctx2 ! h = types ctx1 ! h \<or>
           (is_link (types ctx1 ! h) \<and>
            (\<exists>r. try_dereference_const (types ctx1) h = Some (Inr r) \<and>
                 types ?ctx2 ! h = Type_handle r))"
    using c by (auto simp: compressed_def dest: try_dereference_const_root)
  moreover have "\<forall>h. get_type_instance ?ctx2 h = get_type_instance ctx1 h"
    using compressed_get_type_instance [OF c j1]
    by (auto simp: get_type_instance_def split: option.splits sum.splits)
  ultimately show "\<exists>ctx2. unify depth ctx1 a b = Some (Unified, ctx2) \<and>
        ctx2 = ctx1\<lparr>types := types ctx2\<rparr> \<and>
        length (types ctx2) = length (types ctx1) \<and>
        (\<forall>h < length (types ctx1).
           types ctx2 ! h = types ctx1 ! h \<or>
           (is_link (types ctx1 ! h) \<and>
            (\<exists>r. try_dereference_const (types ctx1) h = Some (Inr r) \<and>
                 types ctx2 ! h = Type_handle r))) \<and>
        (\<forall>h. get_type_instance ctx2 h = get_type_instance ctx1 h)"
    by blast
qed

theorem unify_idempotent_witness:
  "forward_acyclic (types 
     \<lparr>type_prototypes = [], type_names = [], type_structors = Map.empty, abstractions = [],
      types = [Concrete_type 2 [1, 2], Type_var 0, Type_var 1, Concrete_type 2 [4, 4],
               Concrete_type 0 []]\<rparr>) \<and>
   unify 5 
     \<lparr>type_prototypes = [], type_names = [], type_structors = Map.empty, abstractions = [],
      types = [Concrete_type 2 [1, 2], Type_var 0, Type_var 1, Concrete_type 2 [4, 4],
               Concrete_type 0 []]\<rparr> 0 3 = Some (Unified, 
     \<lparr>type_prototypes = [], type_names = [], type_structors = Map.empty, abstractions = [],
      types = [Concrete_type 2 [1, 2], Type_handle 4, Type_handle 4, Concrete_type 2 [4, 4],
               Concrete_type 0 []]\<rparr>) \<and>
   (\<exists>ctx2. unify 5 
     \<lparr>type_prototypes = [], type_names = [], type_structors = Map.empty, abstractions = [],
      types = [Concrete_type 2 [1, 2], Type_handle 4, Type_handle 4, Concrete_type 2 [4, 4],
               Concrete_type 0 []]\<rparr> 0 3 = Some (Unified, ctx2) \<and>
      length (types ctx2) = length (types 
     \<lparr>type_prototypes = [], type_names = [], type_structors = Map.empty, abstractions = [],
      types = [Concrete_type 2 [1, 2], Type_handle 4, Type_handle 4, Concrete_type 2 [4, 4],
               Concrete_type 0 []]\<rparr>) \<and>
      get_type_instance ctx2 1 = get_type_instance 
     \<lparr>type_prototypes = [], type_names = [], type_structors = Map.empty, abstractions = [],
      types = [Concrete_type 2 [1, 2], Type_handle 4, Type_handle 4, Concrete_type 2 [4, 4],
               Concrete_type 0 []]\<rparr> 1)"
proof -
  let ?c0 = "\<lparr>type_prototypes = [], type_names = [], type_structors = Map.empty, abstractions = [],
      types = [Concrete_type 2 [1, 2], Type_var 0, Type_var 1, Concrete_type 2 [4, 4],
               Concrete_type 0 []]\<rparr>"
  let ?c1 = "\<lparr>type_prototypes = [], type_names = [], type_structors = Map.empty, abstractions = [],
      types = [Concrete_type 2 [1, 2], Type_handle 4, Type_handle 4, Concrete_type 2 [4, 4],
               Concrete_type 0 []]\<rparr>"
  have a: "forward_acyclic (types  ?c0)"
    by (simp add: forward_acyclic_def try_dereference_const_def follow_chain.simps upt_rec)
  have u: "unify 5  ?c0 0 3 = Some (Unified,  ?c1)"
    by (simp add: unify_def eval_nat_numeral try_dereference_def follow_chain.simps)
  from unify_idempotent [of  ?c0 5 0 3  ?c1] a u
  have "\<exists>ctx2. unify 5  ?c1 0 3 = Some (Unified, ctx2) \<and>
      length (types ctx2) = length (types  ?c1) \<and>
      get_type_instance ctx2 1 = get_type_instance  ?c1 1"
    by blast
  with a u show ?thesis by blast
qed


section \<open>Properties of the parser and of the whole program\<close>

subsection \<open>Evaluating the default typing context\<close>

lemma default_typing_context_eq: "default_typing_context = Inr builtin_ctx"
  by (simp add: default_typing_context_def builtin_ctx_def builtin_types_def builtin_structors_def
       add_type_prototype_def add_structor_def fresh_type_variable_def Let_def
       eval_nat_numeral)


subsection \<open>Whitespace\<close>

lemmas parser_monad_defs = and_then_def succeed_def throw_def diverge_def returning_def effect_def
  on_input_def unconsume_def at_eof_def read_state_def update_state_def throw_here_def expect_def
  word_cause_def

lemma of_char_eq_10: "((of_char c :: int) = 10) = (c = CHR 0x0A)"
proof -
  have "((of_char c :: int) = of_char CHR 0x0A) = (c = CHR 0x0A)"
    by (rule of_char_eq_iff)
  then show ?thesis
    by simp
qed

lemma parser_ctx_new: "parser_ctx (Parser_new ctx) = ctx"
  by (simp add: Parser_new_def)

lemma skip_whitespace_all_space:
  assumes "\<forall>c\<in>set ws. isspace (of_char c)"
  shows "skip_whitespace (p, \<lparr>buf = ws, eofbit = False, failbit = False\<rparr>) =
          (p\<lparr>current_line := current_line p + length (filter (\<lambda>c. c = CHR 0x0A) ws)\<rparr>,
           \<lparr>buf = [], eofbit = True, failbit = False\<rparr>)"
  using assms
proof (induction ws arbitrary: p)
  case Nil
  show ?case
    by (simp add: skip_whitespace.simps [of p "\<lparr>buf = [], eofbit = False, failbit = False\<rparr>"]
          skip_whitespace.simps [of p "\<lparr>buf = [], eofbit = True, failbit = False\<rparr>"]
          eof_def peek_def good_def EOF_def isspace_def)
next
  case (Cons c ws)
  then have c: "isspace (of_char c)" and ws: "\<forall>c\<in>set ws. isspace (of_char c)"
    by simp_all
  show ?case
    using c Cons.IH [OF ws]
    by (simp add: skip_whitespace.simps [of p "\<lparr>buf = c # ws, eofbit = False, failbit = False\<rparr>"]
          eof_def peek_def get_def good_def of_char_eq_10)
qed

lemma parse_program_whitespace:
  assumes "\<forall>c\<in>set ws. isspace (of_char c)"
  shows "parse_program n (Parser_new ctx, istream_of ws) =
          Some (Inr (\<lparr>definitions = [], statements = []\<rparr>,
                     (Parser_new ctx)\<lparr>current_line := 1 + length (filter (\<lambda>c. c = CHR 0x0A) ws)\<rparr>,
                     \<lparr>buf = [], eofbit = True, failbit = False\<rparr>))"
  by (cases n)
     (simp_all add: parse_program_def istream_of_def skip_whitespace_all_space [OF assms]
        parser_monad_defs eof_def Parser_new_def)

lemma type_program_empty:
  "type_program n \<lparr>definitions = [], statements = []\<rparr> builtin_ctx =
     Some (Inr \<lparr>definitions = [], statements = []\<rparr>, builtin_ctx)"
  by (simp add: type_program_def Typer_new_def get_primitive_prototype_def builtin_ctx_def
        typer_then_def typed_def)

lemma run_empty:
  "run (Interpreter_new nv ncv \<lparr>definitions = [], statements = []\<rparr>) =
     Some (Inr [], (Interpreter_new nv ncv \<lparr>definitions = [], statements = []\<rparr>)\<lparr>finished := True\<rparr>)"
  by (simp add: run_def Interpreter_new_def)

text \<open>
  Claim C9. On an input that consists of whitespace only (the empty input included),
  \<open>parse_program\<close> returns the program with no definitions and no statements;
  \<open>type_program\<close> accepts that program, \<open>run\<close> returns the empty list of results,
  and \<open>main\<close> returns 0. This holds for every bound \<open>n\<close>, so none of the calls fails
  to return.
\<close>

theorem whitespace_only_program:
  assumes "\<forall>c\<in>set stdin. isspace (of_char c)"
  shows "\<exists>ctx parser input i.
           default_typing_context = Inr ctx \<and>
           parse_program n (Parser_new ctx, istream_of stdin) =
             Some (Inr (\<lparr>definitions = [], statements = []\<rparr>, parser, input)) \<and>
           type_program n \<lparr>definitions = [], statements = []\<rparr> (parser_ctx parser) =
             Some (Inr \<lparr>definitions = [], statements = []\<rparr>, parser_ctx parser) \<and>
           run (Interpreter_new (parser_n_vars parser) (parser_n_covars parser)
                  \<lparr>definitions = [], statements = []\<rparr>) = Some (Inr [], i) \<and>
           main n stdin = Some (Exit_code 0)"
proof -
  let ?parser = "(Parser_new builtin_ctx)
                   \<lparr>current_line := 1 + length (filter (\<lambda>c. c = CHR 0x0A) stdin)\<rparr>"
  have ctx: "parser_ctx ?parser = builtin_ctx"
    by (simp add: Parser_new_def)
  have "main n stdin = Some (Exit_code 0)"
    by (simp add: main_def default_typing_context_eq parse_program_whitespace [OF assms]
          parser_ctx_new type_program_empty run_empty)
  then show ?thesis
    using default_typing_context_eq parse_program_whitespace [OF assms, of n builtin_ctx]
      type_program_empty [of n] run_empty ctx
    by metis
qed

theorem whitespace_only_program_witness:
  "isspace (of_char CHR '' '') \<and> isspace (of_char CHR 0x0A) \<and> isspace (of_char CHR 0x09) \<and>
   main 0 [CHR '' '', CHR 0x0A, CHR 0x09] = Some (Exit_code 0) \<and> main 7 [] = Some (Exit_code 0)"
  using whitespace_only_program [of "[CHR '' '', CHR 0x0A, CHR 0x09]" 0]
    whitespace_only_program [of "[]" 7]
  by (auto simp add: isspace_def)


section \<open>Names and their binders\<close>

subsection \<open>Reading words from the stream\<close>

lemma of_char_eq_literal:
  "((of_char c :: int) = 40) = (c = CHR ''('')"
  "((of_char c :: int) = 41) = (c = CHR '')'')"
  "((of_char c :: int) = 91) = (c = CHR ''['')"
  "((of_char c :: int) = 93) = (c = CHR '']'')"
proof -
  have "((of_char c :: int) = of_char CHR ''('') = (c = CHR ''('')"
       "((of_char c :: int) = of_char CHR '')'') = (c = CHR '')'')"
       "((of_char c :: int) = of_char CHR ''['') = (c = CHR ''['')"
       "((of_char c :: int) = of_char CHR '']'') = (c = CHR '']'')"
    by (rule of_char_eq_iff)+
  then show "((of_char c :: int) = 40) = (c = CHR ''('')"
    "((of_char c :: int) = 41) = (c = CHR '')'')"
    "((of_char c :: int) = 91) = (c = CHR ''['')"
    "((of_char c :: int) = 93) = (c = CHR '']'')"
    by simp_all
qed

lemma skip_whitespace_Cons_space:
  "isspace (of_char c) \<Longrightarrow>
   skip_whitespace (p, \<lparr>buf = c # cs, eofbit = False, failbit = False\<rparr>) =
   skip_whitespace (if c = CHR 0x0A then p\<lparr>current_line := current_line p + 1\<rparr> else p,
                    \<lparr>buf = cs, eofbit = False, failbit = False\<rparr>)"
  by (simp add: skip_whitespace.simps [of p "\<lparr>buf = c # cs, eofbit = False, failbit = False\<rparr>"]
        eof_def peek_def get_def good_def of_char_eq_10)

lemma skip_whitespace_Cons_other:
  "\<not> isspace (of_char c) \<Longrightarrow>
   skip_whitespace (p, \<lparr>buf = c # cs, eofbit = False, failbit = False\<rparr>) =
   (p, \<lparr>buf = c # cs, eofbit = False, failbit = False\<rparr>)"
  by (simp add: skip_whitespace.simps [of p "\<lparr>buf = c # cs, eofbit = False, failbit = False\<rparr>"]
        eof_def peek_def get_def good_def)

lemma skip_whitespace_Nil:
  "skip_whitespace (p, \<lparr>buf = [], eofbit = False, failbit = False\<rparr>) =
   (p, \<lparr>buf = [], eofbit = True, failbit = False\<rparr>)"
  by (simp add: skip_whitespace.simps [of p "\<lparr>buf = [], eofbit = False, failbit = False\<rparr>"]
        eof_def peek_def good_def EOF_def isspace_def)

lemma skip_whitespace_eof:
  "skip_whitespace (p, \<lparr>buf = b, eofbit = True, failbit = f\<rparr>) =
   (p, \<lparr>buf = b, eofbit = True, failbit = f\<rparr>)"
  by (simp add: skip_whitespace.simps [of p "\<lparr>buf = b, eofbit = True, failbit = f\<rparr>"] eof_def)

lemma skip_whitespace_word:
  "name \<noteq> [] \<Longrightarrow> word_char (hd name) \<Longrightarrow>
   skip_whitespace (p, \<lparr>buf = name @ rest, eofbit = False, failbit = False\<rparr>) =
   (p, \<lparr>buf = name @ rest, eofbit = False, failbit = False\<rparr>)"
  by (cases name) (simp_all add: skip_whitespace_Cons_other word_char_def)

lemma read_word_loop_max:
  "max_len \<le> len \<Longrightarrow> read_word_loop max_len len acc input = (acc, input)"
  by (simp add: read_word_loop.simps [of max_len len acc input])

lemma read_word_loop_Cons_word:
  "word_char c \<Longrightarrow> len < max_len \<Longrightarrow>
   read_word_loop max_len len acc \<lparr>buf = c # cs, eofbit = False, failbit = False\<rparr> =
   read_word_loop max_len (Suc len) (acc @ [c]) \<lparr>buf = cs, eofbit = False, failbit = False\<rparr>"
  by (simp add: read_word_loop.simps
                  [of max_len len acc "\<lparr>buf = c # cs, eofbit = False, failbit = False\<rparr>"]
        eof_def peek_def get_def good_def word_char_def of_char_eq_literal)

lemma read_word_loop_Cons_other:
  "\<not> word_char c \<Longrightarrow>
   read_word_loop max_len len acc \<lparr>buf = c # cs, eofbit = False, failbit = False\<rparr> =
   (acc, \<lparr>buf = c # cs, eofbit = False, failbit = False\<rparr>)"
  by (auto simp add: read_word_loop.simps
                  [of max_len len acc "\<lparr>buf = c # cs, eofbit = False, failbit = False\<rparr>"]
        eof_def peek_def get_def good_def word_char_def of_char_eq_literal)

lemma read_word_loop_Nil:
  "len < max_len \<Longrightarrow>
   read_word_loop max_len len acc \<lparr>buf = [], eofbit = False, failbit = False\<rparr> =
   (acc, \<lparr>buf = [], eofbit = True, failbit = False\<rparr>)"
  by (simp add: read_word_loop.simps
                  [of max_len len acc "\<lparr>buf = [], eofbit = False, failbit = False\<rparr>"]
        eof_def peek_def good_def EOF_def isspace_def)

lemma read_word_loop_word:
  "\<forall>c\<in>set name. word_char c \<Longrightarrow> len + length name \<le> max_len \<Longrightarrow>
   read_word_loop max_len len acc \<lparr>buf = name @ rest, eofbit = False, failbit = False\<rparr> =
   read_word_loop max_len (len + length name) (acc @ name)
     \<lparr>buf = rest, eofbit = False, failbit = False\<rparr>"
proof (induction name arbitrary: len acc)
  case Nil
  show ?case
    by simp
next
  case (Cons c name)
  then show ?case
    by (simp add: read_word_loop_Cons_word)
qed


lemma peek_Cons:
  "peek \<lparr>buf = c # cs, eofbit = False, failbit = False\<rparr> =
   (of_char c, \<lparr>buf = c # cs, eofbit = False, failbit = False\<rparr>)"
  by (simp add: peek_def good_def)

lemma peek_Nil:
  "peek \<lparr>buf = [], eofbit = False, failbit = False\<rparr> =
   (EOF, \<lparr>buf = [], eofbit = True, failbit = False\<rparr>)"
  by (simp add: peek_def good_def)

lemma peek_eof:
  "peek \<lparr>buf = b, eofbit = True, failbit = f\<rparr> = (EOF, \<lparr>buf = b, eofbit = True, failbit = True\<rparr>)"
  by (simp add: peek_def good_def)

lemma peek_fail:
  "peek \<lparr>buf = b, eofbit = e, failbit = True\<rparr> = (EOF, \<lparr>buf = b, eofbit = e, failbit = True\<rparr>)"
  by (simp add: peek_def good_def)

lemma get_Cons:
  "get \<lparr>buf = c # cs, eofbit = False, failbit = False\<rparr> =
   (of_char c, \<lparr>buf = cs, eofbit = False, failbit = False\<rparr>)"
  by (simp add: get_def good_def)

lemma get_Nil:
  "get \<lparr>buf = [], eofbit = False, failbit = False\<rparr> =
   (EOF, \<lparr>buf = [], eofbit = True, failbit = True\<rparr>)"
  by (simp add: get_def good_def)

lemma get_eof:
  "get \<lparr>buf = b, eofbit = True, failbit = f\<rparr> = (EOF, \<lparr>buf = b, eofbit = True, failbit = True\<rparr>)"
  by (simp add: get_def good_def)

lemma get_fail:
  "get \<lparr>buf = b, eofbit = e, failbit = True\<rparr> = (EOF, \<lparr>buf = b, eofbit = e, failbit = True\<rparr>)"
  by (simp add: get_def good_def)

lemma peek_word_start:
  "name \<noteq> [] \<Longrightarrow>
   peek \<lparr>buf = name @ rest, eofbit = False, failbit = False\<rparr> =
   (of_char (hd name), \<lparr>buf = name @ rest, eofbit = False, failbit = False\<rparr>)"
  by (cases name) (simp_all add: peek_Cons)

lemma small_less_SIZE_MAX: "len \<le> 16 \<Longrightarrow> len < SIZE_MAX"
  by (simp add: SIZE_MAX_def)

lemma read_word_name:
  assumes "\<forall>c\<in>set name. word_char c" and "length name < SIZE_MAX"
    and "name \<noteq> []" and "rest = [] \<or> \<not> word_char (hd rest)"
  shows "read_word SIZE_MAX (p, \<lparr>buf = name @ rest, eofbit = False, failbit = False\<rparr>) =
          (name, p, \<lparr>buf = rest, eofbit = (rest = []), failbit = False\<rparr>)"
proof -
  have hd: "word_char (hd name)"
    using assms(1,3) by simp
  show ?thesis
  proof (cases rest)
    case Nil
    then show ?thesis
      using assms(1,2) read_word_loop_word [of name 0 SIZE_MAX "[]" "[]"]
        skip_whitespace_word [OF assms(3) hd, of p "[]"]
      by (simp add: read_word_def read_word_loop_Nil)
  next
    case (Cons c cs)
    then have "\<not> word_char c"
      using assms(4) by simp
    then show ?thesis
      using assms(1,2) Cons read_word_loop_word [of name 0 SIZE_MAX "[]" "c # cs"]
        skip_whitespace_word [OF assms(3) hd, of p "c # cs"]
      by (simp add: read_word_def read_word_loop_Cons_other)
  qed
qed

lemma parse_variable_bound:
  assumes "\<forall>c\<in>set name. word_char c" and "length name < SIZE_MAX"
    and "name \<noteq> []" and "rest = [] \<or> \<not> word_char (hd rest)"
    and "var_ctx p name \<noteq> []"
  shows "parse_variable (p, \<lparr>buf = name @ rest, eofbit = False, failbit = False\<rparr>) =
          Some (Inr (Variable_prod (last (var_ctx p name)) name None, p,
                     \<lparr>buf = rest, eofbit = (rest = []), failbit = False\<rparr>))"
  using assms(3,5)
  by (simp add: parse_variable_def parser_monad_defs read_word_name [OF assms(1-4)])

lemma parse_covariable_bound:
  assumes "\<forall>c\<in>set name. word_char c" and "length name < SIZE_MAX"
    and "name \<noteq> []" and "rest = [] \<or> \<not> word_char (hd rest)"
    and "covar_ctx p name \<noteq> []"
  shows "parse_covariable (p, \<lparr>buf = name @ rest, eofbit = False, failbit = False\<rparr>) =
          Some (Inr (Covariable_cons (last (covar_ctx p name)) name None, p,
                     \<lparr>buf = rest, eofbit = (rest = []), failbit = False\<rparr>))"
  using assms(3,5)
  by (simp add: parse_covariable_def parser_monad_defs read_word_name [OF assms(1-4)])

lemma parsers_Suc:
  "parse_producer (Suc n) st =
     parse_producer_at n (parse_producer n) (parse_consumer n) (parse_statement n) st"
  "parse_consumer (Suc n) st =
     parse_consumer_at n (parse_producer n) (parse_consumer n) (parse_statement n) st"
  "parse_statement (Suc n) st =
     parse_statement_at n (parse_producer n) (parse_consumer n) (parse_statement n) st"
  by (simp_all add: parse_producer_def parse_consumer_def parse_statement_def split: prod.split)

lemma parse_producer_variable:
  assumes "\<forall>c\<in>set name. word_char c" and "length name < SIZE_MAX"
    and "name \<noteq> []" and "rest = [] \<or> \<not> word_char (hd rest)"
    and "var_ctx p name \<noteq> []" and "isalpha (of_char (hd name))"
  shows "parse_producer (Suc n) (p, \<lparr>buf = name @ rest, eofbit = False, failbit = False\<rparr>) =
          Some (Inr (Variable_prod (last (var_ctx p name)) name None, p,
                     \<lparr>buf = rest, eofbit = (rest = []), failbit = False\<rparr>))"
proof -
  have hd: "word_char (hd name)"
    using assms(1,3) by simp
  show ?thesis
    using assms(3,6)
    by (simp add: parsers_Suc parse_producer_at_def parser_monad_defs peek_word_start
          skip_whitespace_word [OF assms(3) hd] parse_variable_bound [OF assms(1-5)])
qed

lemma parse_consumer_covariable:
  assumes "\<forall>c\<in>set name. word_char c" and "length name < SIZE_MAX"
    and "name \<noteq> []" and "rest = [] \<or> \<not> word_char (hd rest)"
    and "covar_ctx p name \<noteq> []" and "isalpha (of_char (hd name))"
  shows "parse_consumer (Suc n) (p, \<lparr>buf = name @ rest, eofbit = False, failbit = False\<rparr>) =
          Some (Inr (Covariable_cons (last (covar_ctx p name)) name None, p,
                     \<lparr>buf = rest, eofbit = (rest = []), failbit = False\<rparr>))"
proof -
  have hd: "word_char (hd name)"
    using assms(1,3) by simp
  show ?thesis
    using assms(3,6)
    by (simp add: parsers_Suc parse_consumer_at_def parser_monad_defs peek_word_start
          skip_whitespace_word [OF assms(3) hd] parse_covariable_bound [OF assms(1-5)])
qed


lemmas stream_eval = skip_whitespace_Cons_space skip_whitespace_Cons_other skip_whitespace_Nil
  skip_whitespace_eof skip_whitespace_word read_word_loop_max read_word_loop_Cons_word
  read_word_loop_Cons_other read_word_loop_Nil read_word_loop_word peek_word_start
  small_less_SIZE_MAX read_word_def peek_word_def peek_Cons peek_Nil peek_eof peek_fail
  get_Cons get_Nil get_eof get_fail putback_def eof_def EOF_def
  istream_of_def word_char_def isspace_def isalpha_def isdigit_def

lemmas parse_defs = parse_producer_at_def parse_consumer_at_def parse_statement_at_def
  parse_variable_def parse_value_def parse_mu_p_def parse_mu_c_def parse_covariable_def
  parse_end_def parse_cut_def
  keyword_mu_p_ascii_def keyword_mu_p_unicode_def keyword_mu_c_ascii_def keyword_mu_c_unicode_def
  keyword_end_def AST_mu_p_def AST_mu_c_def

lemma mu_c_binder:
  assumes "\<forall>c\<in>set name. word_char c" and "length name < SIZE_MAX"
    and "name \<noteq> []" and "isalpha (of_char (hd name))"
  shows "parse_consumer (Suc (Suc (Suc n)))
           (p, istream_of (''(mu'' @ [CHR 0x27] @ '' '' @ name @ '' ['' @ name @ '' <END>])'' @ rest)) =
         Some (Inr (Mu_cons (parser_n_vars p) name
                      (Cut_stmt (Variable_prod (parser_n_vars p) name None) (End_cons None)) None,
                    p\<lparr>parser_n_vars := Suc (parser_n_vars p)\<rparr>,
                    \<lparr>buf = rest, eofbit = False, failbit = False\<rparr>))"
proof -
  have hd: "word_char (hd name)"
    using assms(1,3) by simp
  have nsp: "\<not> isspace (of_char (hd name))"
    using hd by (simp add: word_char_def)
  show ?thesis
    using assms hd nsp
    by (simp add: parsers_Suc parse_defs parser_monad_defs stream_eval char_of_def)
qed

lemma mu_p_binder:
  assumes "\<forall>c\<in>set name. word_char c" and "length name < SIZE_MAX"
    and "name \<noteq> []" and "isalpha (of_char (hd name))"
  shows "parse_producer (Suc (Suc (Suc n)))
           (p, istream_of (''(mu '' @ name @ '' [1 '' @ name @ ''])'' @ rest)) =
         Some (Inr (Mu_prod (parser_n_covars p) name
                      (Cut_stmt (Value_prod 1 None) (Covariable_cons (parser_n_covars p) name None))
                      None,
                    p\<lparr>parser_n_covars := Suc (parser_n_covars p)\<rparr>,
                    \<lparr>buf = rest, eofbit = False, failbit = False\<rparr>))"
proof -
  have hd: "word_char (hd name)"
    using assms(1,3) by simp
  have nsp: "\<not> isspace (of_char (hd name))"
    using hd by (simp add: word_char_def)
  show ?thesis
    using assms hd nsp
    by (simp add: parsers_Suc parse_defs parser_monad_defs stream_eval char_of_def stoll_def)
qed


subsection \<open>Binders and uses\<close>

text \<open>
  Claim C8, as stated, fails. The name \<open>_x\<close> consists of identifier characters, and the
  binder \<open>mu'\<close> accepts it, but its use in producer position is a parse error:
  \<open>parse_producer\<close> reads a variable only when the next character is a letter
  (\<open>std::isalpha\<close>), reads an integer literal when it is a digit or a minus sign, and
  expects an opening parenthesis otherwise.
\<close>

theorem underscore_name_rejected:
  "parse_program (Suc (Suc (Suc (Suc 0))))
     (Parser_new builtin_ctx, istream_of (''[1 (mu'' @ [CHR 0x27] @ '' _x [_x <END>])]'')) =
   Some (Inl (Unexpected_char_exception 1 1 ''producer'' (of_char CHR ''_'')))"
  by (simp add: parse_program_def parsers_Suc parse_defs parser_monad_defs stream_eval char_of_def
        stoll_def Parser_new_def)


section \<open>Clause lists\<close>

lemma erase_structors_Inr_iff:
  "(erase_structors S cs = Inr R) =
     (distinct (map clause_abstraction_id cs) \<and> set (map clause_abstraction_id cs) \<subseteq> S \<and>
      R = S - set (map clause_abstraction_id cs))"
proof (induction cs arbitrary: S)
  case Nil
  show ?case
    by auto
next
  case (Cons c cs)
  show ?case
    by (auto simp add: Cons.IH image_iff)
qed

lemma validate_clauses_iff:
  assumes "structors_like ctx (clause_abstraction_id (hd cs)) = Inr S"
  shows "(validate_clauses ctx line start pol cs = Inr r) =
           (r = cs \<and> cs \<noteq> [] \<and> distinct (map clause_abstraction_id cs) \<and>
            set (map clause_abstraction_id cs) = S)"
proof (cases "erase_structors S cs")
  case (Inl c)
  then have "\<not> (distinct (map clause_abstraction_id cs) \<and> set (map clause_abstraction_id cs) \<subseteq> S)"
    using erase_structors_Inr_iff [of S cs "S - set (map clause_abstraction_id cs)"] by auto
  then show ?thesis
    using assms Inl by (auto simp add: validate_clauses_def Let_def)
next
  case (Inr R)
  then show ?thesis
    using assms erase_structors_Inr_iff [of S cs R]
    by (auto simp add: validate_clauses_def Let_def)
qed

lemma validate_clauses_error:
  assumes "structors_like ctx (clause_abstraction_id (hd cs)) = Inr S"
    and "validate_clauses ctx line start pol cs = Inl e"
  shows "\<exists>msg. e = Parse_exception line start
                      (if pol = Polarity_producer then ''cocase expression''
                       else ''case expression'') msg"
  using assms
  by (auto simp add: validate_clauses_def Let_def split: if_splits sum.splits)

lemma validate_clauses_success:
  assumes "validate_clauses ctx line start pol cs = Inr r"
  shows "r = cs \<and> cs \<noteq> [] \<and>
         (\<exists>S. structors_like ctx (clause_abstraction_id (hd cs)) = Inr S \<and>
              distinct (map clause_abstraction_id cs) \<and> set (map clause_abstraction_id cs) = S)"
proof (cases "structors_like ctx (clause_abstraction_id (hd cs))")
  case (Inl e)
  then show ?thesis
    using assms by (auto simp add: validate_clauses_def Let_def split: if_splits)
next
  case (Inr S)
  then show ?thesis
    using assms validate_clauses_iff [OF Inr, of line start pol r] by auto
qed


lemma mset_distinct_map:
  "distinct (map f xs) \<Longrightarrow> image_mset f (mset xs) = mset_set (f ` set xs)"
  using mset_set_set [of "map f xs"] by simp

lemma and_then_Inr:
  "(and_then m f st = Some (Inr r)) = (\<exists>x st'. m st = Some (Inr (x, st')) \<and> f x st' = Some (Inr r))"
  by (auto simp add: and_then_def split: option.splits sum.splits)

lemma parse_clauses_eq:
  assumes "parse_list n (parse_clause n ps pol)
             (if pol = Polarity_producer then ''cocase clause'' else ''case clause'') st =
           Some (Inr (cs, p, input))"
  shows "parse_clauses n ps pol start st =
           (case validate_clauses (parser_ctx p) (current_line p) start pol cs of
              Inl e \<Rightarrow> Some (Inl e)
            | Inr r \<Rightarrow> Some (Inr (r, p, input)))"
  using assms
  by (simp add: parse_clauses_def parser_monad_defs split: sum.splits)

lemma parse_clauses_success:
  assumes "parse_clauses n ps pol start st = Some (Inr (cs, p, input))"
  shows "cs \<noteq> [] \<and>
         (\<exists>S. structors_like (parser_ctx p) (clause_abstraction_id (hd cs)) = Inr S \<and>
              mset (map clause_abstraction_id cs) = mset_set S)"
proof -
  from assms obtain cs' where
    v: "validate_clauses (parser_ctx p) (current_line p) start pol cs' = Inr cs"
    by (auto simp add: parse_clauses_def parser_monad_defs split: option.splits sum.splits)
  from validate_clauses_success [OF v] show ?thesis
    by (auto simp add: mset_distinct_map)
qed

lemma expect_success:
  "expect c context start (p, input) = Some (Inr (u, p', input')) \<Longrightarrow> p' = p"
  by (auto simp add: parser_monad_defs split: prod.splits if_splits)

lemma structors_like_builtin:
  "aid < 8 \<Longrightarrow> \<exists>S. structors_like builtin_ctx aid = Inr S"
proof -
  assume "aid < 8"
  then have "aid \<in> {0, 1, 2, 3, 4, 5, 6, 7}"
    by auto
  then show ?thesis
    by (auto simp add: structors_like_def builtin_ctx_def)
qed

lemma structors_like_add_definition:
  assumes "aid < length (abstractions ctx)"
  shows "structors_like (snd (add_definition ctx name arity coarity)) aid = structors_like ctx aid"
  using assms
  by (cases "abs_type (abstractions ctx ! aid)")
     (auto simp add: structors_like_def add_definition_def Let_def nth_append split: prod.splits)

lemmas program_eval = parse_program_def parse_definition_def parse_call_def parse_structor_def
  parse_constructor_def parse_destructor_def

lemmas clause_eval = parse_list_def parse_clause_def parse_clauses_def parse_case_def
  parse_cocase_def pop_vars_def pop_covars_def parser_builtin_structors_def Let_def

lemma erase_structors_Inl_mem: "erase_structors S cs = Inl c \<Longrightarrow> c \<in> set cs"
  by (induction cs arbitrary: S) (auto split: if_splits)

lemma validate_clauses_cases:
  assumes sl: "structors_like ctx (clause_abstraction_id (hd cs)) = Inr S" and ne: "cs \<noteq> []"
  shows "if distinct (map clause_abstraction_id cs) \<and> set (map clause_abstraction_id cs) \<subseteq> S
         then (if set (map clause_abstraction_id cs) = S
               then validate_clauses ctx line start pol cs = Inr cs
               else validate_clauses ctx line start pol cs =
                      Inl (Parse_exception line start
                             (if pol = Polarity_producer then ''cocase expression''
                              else ''case expression'') ''incomplete clause list''))
         else (\<exists>c\<in>set cs. validate_clauses ctx line start pol cs =
                      Inl (Parse_exception line start
                             (if pol = Polarity_producer then ''cocase expression''
                              else ''case expression'')
                             (''Duplicate or mismatched structor: '' @ structor_name c)))"
proof (cases "erase_structors S cs")
  case (Inl c)
  then have "\<not> (distinct (map clause_abstraction_id cs) \<and>
               set (map clause_abstraction_id cs) \<subseteq> S)"
    using erase_structors_Inr_iff [of S cs "S - set (map clause_abstraction_id cs)"] by auto
  moreover have "c \<in> set cs"
    using Inl by (rule erase_structors_Inl_mem)
  moreover have "validate_clauses ctx line start pol cs =
                      Inl (Parse_exception line start
                             (if pol = Polarity_producer then ''cocase expression''
                              else ''case expression'')
                             (''Duplicate or mismatched structor: '' @ structor_name c))"
    using sl ne Inl by (simp add: validate_clauses_def)
  ultimately show ?thesis
    by (simp only: if_False) blast
next
  case (Inr R)
  then have d: "distinct (map clause_abstraction_id cs) \<and>
                set (map clause_abstraction_id cs) \<subseteq> S"
    and R: "R = S - set (map clause_abstraction_id cs)"
    using erase_structors_Inr_iff [of S cs R] by auto
  have "R = {} \<longleftrightarrow> set (map clause_abstraction_id cs) = S"
    using d R by auto
  then show ?thesis
    using sl ne Inr d by (simp add: validate_clauses_def)
qed

lemma parse_clauses_empty_list:
  "parse_clauses (Suc n) ps pol start
     (p, \<lparr>buf = ''()'' @ rest, eofbit = False, failbit = False\<rparr>) =
   Some (Inl (Parse_exception (current_line p) start
                (if pol = Polarity_producer then ''cocase expression'' else ''case expression'')
                ''empty clause list''))"
  by (simp add: clause_eval parser_monad_defs stream_eval validate_clauses_def)

lemma empty_case_main:
  "main (Suc (Suc (Suc n))) ''[1 (case ())]'' = Some (Exit_code 1)"
  by (simp add: main_def default_typing_context_eq
        program_eval clause_eval parsers_Suc parse_defs parser_monad_defs
        stream_eval char_of_def stoll_def Parser_new_def validate_clauses_def)

lemma empty_cocase_main:
  "main (Suc (Suc (Suc n))) ''[(cocase ()) <END>]'' = Some (Exit_code 1)"
  by (simp add: main_def default_typing_context_eq
        program_eval clause_eval parsers_Suc parse_defs parser_monad_defs
        stream_eval char_of_def stoll_def Parser_new_def validate_clauses_def)

text \<open>
  Claim C4. \<open>parse_clauses\<close> parses the list of clauses and then validates it.

  \<^item> When the parsed list is empty, \<open>parse_clauses\<close> throws the \<open>Parse_exception\<close>
    \<open>empty clause list\<close>, whatever the typing context is; the list \<open>()\<close> is parsed to the
    empty list in every parser state, and the programs \<open>[1 (case ())]\<close> and
    \<open>[(cocase ()) <END>]\<close> leave \<open>main\<close> with the exit code of a parse error.
  \<^item> When the parsed list \<open>cs\<close> is not empty and \<open>structors_like\<close> of the first clause
    returns the set \<open>S\<close> (as it does for every structor of the default context),
    \<open>parse_clauses\<close> succeeds if and only if every clause's structor is in \<open>S\<close>, no structor
    appears twice and every structor of \<open>S\<close> appears; it then returns \<open>cs\<close>, and the
    multiset of the clauses' abstraction ids is \<open>S\<close>. Otherwise it throws a
    \<open>Parse_exception\<close>: \<open>incomplete clause list\<close> when only the last condition fails,
    and otherwise \<open>Duplicate or mismatched structor\<close> with the name of a clause of the
    list.
  \<^item> An error of the list parser is the error of \<open>parse_clauses\<close>.
  \<^item> Every \<open>case\<close> and \<open>cocase\<close> expression that \<open>parse_case\<close> or \<open>parse_cocase\<close> returns
    has a non-empty clause list whose multiset of abstraction ids is \<open>structors_like\<close> of
    its first clause.
\<close>

theorem clause_list_total:
  "(parse_list n (parse_clause n ps pol)
      (if pol = Polarity_producer then ''cocase clause'' else ''case clause'') st =
      Some (Inr (cs, p, input)) \<longrightarrow>
      (if cs = []
       then parse_clauses n ps pol start st =
              Some (Inl (Parse_exception (current_line p) start
                           (if pol = Polarity_producer then ''cocase expression''
                            else ''case expression'') ''empty clause list''))
       else (structors_like (parser_ctx p) (clause_abstraction_id (hd cs)) = Inr S \<longrightarrow>
         (if (\<forall>c\<in>set cs. clause_abstraction_id c \<in> S) \<and>
             distinct (map clause_abstraction_id cs) \<and>
             (\<forall>s\<in>S. \<exists>c\<in>set cs. clause_abstraction_id c = s)
          then parse_clauses n ps pol start st = Some (Inr (cs, p, input)) \<and>
               mset (map clause_abstraction_id cs) = mset_set S
          else if (\<forall>c\<in>set cs. clause_abstraction_id c \<in> S) \<and>
                  distinct (map clause_abstraction_id cs)
          then parse_clauses n ps pol start st =
                 Some (Inl (Parse_exception (current_line p) start
                              (if pol = Polarity_producer then ''cocase expression''
                               else ''case expression'') ''incomplete clause list''))
          else (\<exists>c\<in>set cs. parse_clauses n ps pol start st =
                 Some (Inl (Parse_exception (current_line p) start
                              (if pol = Polarity_producer then ''cocase expression''
                               else ''case expression'')
                              (''Duplicate or mismatched structor: '' @ structor_name c)))))))) \<and>
   (parse_list n (parse_clause n ps pol)
      (if pol = Polarity_producer then ''cocase clause'' else ''case clause'') st =
      Some (Inl e) \<longrightarrow> parse_clauses n ps pol start st = Some (Inl e)) \<and>
   parse_clauses (Suc n) ps pol start
     (p0, \<lparr>buf = ''()'' @ rest, eofbit = False, failbit = False\<rparr>) =
     Some (Inl (Parse_exception (current_line p0) start
                  (if pol = Polarity_producer then ''cocase expression''
                   else ''case expression'') ''empty clause list'')) \<and>
   main (Suc (Suc (Suc n))) ''[1 (case ())]'' = Some (Exit_code 1) \<and>
   main (Suc (Suc (Suc n))) ''[(cocase ()) <END>]'' = Some (Exit_code 1) \<and>
   (parse_clauses n ps pol start st = Some (Inr (cs', p', input')) \<longrightarrow>
      cs' \<noteq> [] \<and>
      (\<exists>S'. structors_like (parser_ctx p') (clause_abstraction_id (hd cs')) = Inr S' \<and>
            (\<forall>c\<in>set cs'. clause_abstraction_id c \<in> S') \<and>
            distinct (map clause_abstraction_id cs') \<and>
            (\<forall>s\<in>S'. \<exists>c\<in>set cs'. clause_abstraction_id c = s) \<and>
            mset (map clause_abstraction_id cs') = mset_set S')) \<and>
   (parse_case n ps st' = Some (Inr (cns, p', input')) \<longrightarrow>
      (\<exists>cs S. cns = Case_cons cs None \<and> cs \<noteq> [] \<and>
              structors_like (parser_ctx p') (clause_abstraction_id (hd cs)) = Inr S \<and>
              mset (map clause_abstraction_id cs) = mset_set S)) \<and>
   (parse_cocase n ps st' = Some (Inr (prd, p', input')) \<longrightarrow>
      (\<exists>cs S. prd = Cocase_prod cs None \<and> cs \<noteq> [] \<and>
              structors_like (parser_ctx p') (clause_abstraction_id (hd cs)) = Inr S \<and>
              mset (map clause_abstraction_id cs) = mset_set S))"
proof -
  let ?kind = "if pol = Polarity_producer then ''cocase clause'' else ''case clause''"
  let ?expr = "if pol = Polarity_producer then ''cocase expression'' else ''case expression''"
  have c1: "if cs = []
       then parse_clauses n ps pol start st =
              Some (Inl (Parse_exception (current_line p) start ?expr ''empty clause list''))
       else (structors_like (parser_ctx p) (clause_abstraction_id (hd cs)) = Inr S \<longrightarrow>
         (if (\<forall>c\<in>set cs. clause_abstraction_id c \<in> S) \<and>
             distinct (map clause_abstraction_id cs) \<and>
             (\<forall>s\<in>S. \<exists>c\<in>set cs. clause_abstraction_id c = s)
          then parse_clauses n ps pol start st = Some (Inr (cs, p, input)) \<and>
               mset (map clause_abstraction_id cs) = mset_set S
          else if (\<forall>c\<in>set cs. clause_abstraction_id c \<in> S) \<and>
                  distinct (map clause_abstraction_id cs)
          then parse_clauses n ps pol start st =
                 Some (Inl (Parse_exception (current_line p) start ?expr
                              ''incomplete clause list''))
          else (\<exists>c\<in>set cs. parse_clauses n ps pol start st =
                 Some (Inl (Parse_exception (current_line p) start ?expr
                              (''Duplicate or mismatched structor: '' @ structor_name c))))))"
    if a: "parse_list n (parse_clause n ps pol) ?kind st = Some (Inr (cs, p, input))"
  proof -
    let ?v = "validate_clauses (parser_ctx p) (current_line p) start pol cs"
    let ?ids = "map clause_abstraction_id cs"
    have eq: "parse_clauses n ps pol start st =
                (case ?v of Inl e \<Rightarrow> Some (Inl e) | Inr r \<Rightarrow> Some (Inr (r, p, input)))"
      using a parse_clauses_eq by blast
    show ?thesis
    proof (cases "cs = []")
      case True
      then show ?thesis
        using eq by (simp add: validate_clauses_def)
    next
      case False
      have AD: "((\<forall>c\<in>set cs. clause_abstraction_id c \<in> S) \<and> distinct ?ids) =
                (distinct ?ids \<and> set ?ids \<subseteq> S)"
        by auto
      have ADC: "((\<forall>c\<in>set cs. clause_abstraction_id c \<in> S) \<and> distinct ?ids \<and>
                  (\<forall>s\<in>S. \<exists>c\<in>set cs. clause_abstraction_id c = s)) =
                 ((distinct ?ids \<and> set ?ids \<subseteq> S) \<and> set ?ids = S)"
        by auto
      have inner: "if (distinct ?ids \<and> set ?ids \<subseteq> S) \<and> set ?ids = S
          then parse_clauses n ps pol start st = Some (Inr (cs, p, input)) \<and>
               mset ?ids = mset_set S
          else if distinct ?ids \<and> set ?ids \<subseteq> S
          then parse_clauses n ps pol start st =
                 Some (Inl (Parse_exception (current_line p) start ?expr
                              ''incomplete clause list''))
          else (\<exists>c\<in>set cs. parse_clauses n ps pol start st =
                 Some (Inl (Parse_exception (current_line p) start ?expr
                              (''Duplicate or mismatched structor: '' @ structor_name c))))"
        if sl: "structors_like (parser_ctx p) (clause_abstraction_id (hd cs)) = Inr S"
      proof -
        note vc = validate_clauses_cases [OF sl False, of "current_line p" start pol]
        show ?thesis
        proof (cases "distinct ?ids \<and> set ?ids \<subseteq> S")
          case T: True
          show ?thesis
          proof (cases "set ?ids = S")
            case True
            have "?v = Inr cs"
              using vc T True by simp
            then have "parse_clauses n ps pol start st = Some (Inr (cs, p, input))"
              using eq by simp
            moreover have "mset ?ids = mset_set S"
              using T True mset_set_set [of ?ids] by simp
            ultimately show ?thesis
              using T True by simp
          next
            case F: False
            have "?v = Inl (Parse_exception (current_line p) start ?expr
                              ''incomplete clause list'')"
              using vc T F by simp
            then have "parse_clauses n ps pol start st =
                 Some (Inl (Parse_exception (current_line p) start ?expr
                              ''incomplete clause list''))"
              using eq by simp
            then show ?thesis
              using T F by simp
          qed
        next
          case F: False
          then obtain c where c: "c \<in> set cs"
            "?v = Inl (Parse_exception (current_line p) start ?expr
                         (''Duplicate or mismatched structor: '' @ structor_name c))"
            using vc by (simp only: if_False) blast
          have "parse_clauses n ps pol start st =
                 Some (Inl (Parse_exception (current_line p) start ?expr
                              (''Duplicate or mismatched structor: '' @ structor_name c)))"
            using eq c(2) by simp
          then show ?thesis
            using F c(1) by (simp only: if_False simp_thms) blast
        qed
      qed
      show ?thesis
        unfolding ADC AD using inner by (simp only: False if_False) blast
    qed
  qed
  have c2: "parse_clauses n ps pol start st = Some (Inl e)"
    if "parse_list n (parse_clause n ps pol) ?kind st = Some (Inl e)"
    using that by (simp add: parse_clauses_def and_then_def)
  have c6: "cs' \<noteq> [] \<and>
      (\<exists>S'. structors_like (parser_ctx p') (clause_abstraction_id (hd cs')) = Inr S' \<and>
            (\<forall>c\<in>set cs'. clause_abstraction_id c \<in> S') \<and>
            distinct (map clause_abstraction_id cs') \<and>
            (\<forall>s\<in>S'. \<exists>c\<in>set cs'. clause_abstraction_id c = s) \<and>
            mset (map clause_abstraction_id cs') = mset_set S')"
    if a: "parse_clauses n ps pol start st = Some (Inr (cs', p', input'))"
  proof -
    from a obtain cs0 where
      v: "validate_clauses (parser_ctx p') (current_line p') start pol cs0 = Inr cs'"
      by (auto simp add: parse_clauses_def parser_monad_defs split: option.splits sum.splits)
    from validate_clauses_success [OF v] show ?thesis
      by (auto simp add: mset_distinct_map)
  qed
  have c7: "\<exists>cs S. cns = Case_cons cs None \<and> cs \<noteq> [] \<and>
              structors_like (parser_ctx p') (clause_abstraction_id (hd cs)) = Inr S \<and>
              mset (map clause_abstraction_id cs) = mset_set S"
    if a: "parse_case n ps st' = Some (Inr (cns, p', input'))"
  proof -
    from a obtain cs st1 start st2 u where
      c: "parse_clauses n ps Polarity_consumer start st1 = Some (Inr (cs, st2))"
      and e: "expect CHR '')'' ''case expression'' start st2 = Some (Inr (u, p', input'))"
      and r: "cns = Case_cons cs None"
      by (auto simp add: parse_case_def and_then_Inr succeed_def throw_here_def throw_def
            split: if_splits)
    obtain p2 input2 where st2: "st2 = (p2, input2)"
      by (cases st2)
    have "p2 = p'"
      using e expect_success unfolding st2 by blast
    then show ?thesis
      using parse_clauses_success [OF c [unfolded st2]] r by auto
  qed
  have c8: "\<exists>cs S. prd = Cocase_prod cs None \<and> cs \<noteq> [] \<and>
              structors_like (parser_ctx p') (clause_abstraction_id (hd cs)) = Inr S \<and>
              mset (map clause_abstraction_id cs) = mset_set S"
    if a: "parse_cocase n ps st' = Some (Inr (prd, p', input'))"
  proof -
    from a obtain cs st1 start st2 u where
      c: "parse_clauses n ps Polarity_producer start st1 = Some (Inr (cs, st2))"
      and e: "expect CHR '')'' ''cocase expression'' start st2 = Some (Inr (u, p', input'))"
      and r: "prd = Cocase_prod cs None"
      by (auto simp add: parse_cocase_def and_then_Inr succeed_def throw_here_def throw_def
            split: if_splits)
    obtain p2 input2 where st2: "st2 = (p2, input2)"
      by (cases st2)
    have "p2 = p'"
      using e expect_success unfolding st2 by blast
    then show ?thesis
      using parse_clauses_success [OF c [unfolded st2]] r by auto
  qed
  show ?thesis
    using c1 c2 c6 c7 c8 parse_clauses_empty_list [of n ps pol start p0 rest]
      empty_case_main [of n] empty_cocase_main [of n]
    by blast
qed


theorem clause_list_total_witness:
  "(\<exists>p input.
      parse_clauses (Suc (Suc (Suc 0))) (parse_statement (Suc (Suc (Suc 0)))) Polarity_consumer 1
        (Parser_new builtin_ctx, istream_of ''((Nil [1 <END>]) (Cons (a b) [a <END>])))'') =
      Some (Inr ([Clause 0 ''Nil'' [] [] [] [] (Cut_stmt (Value_prod 1 None) (End_cons None)),
                  Clause 1 ''Cons'' [''a'', ''b''] [] [0, 1] []
                    (Cut_stmt (Variable_prod 0 ''a'' None) (End_cons None))], p, input))) \<and>
   mset [0, 1] = mset_set {1, 0 :: nat} \<and>
   parse_clauses (Suc (Suc (Suc 0))) (parse_statement (Suc (Suc (Suc 0)))) Polarity_consumer 1
     (Parser_new builtin_ctx, istream_of ''((Cons (a b) [a <END>])))'') =
     Some (Inl (Parse_exception 1 1 ''case expression'' ''incomplete clause list'')) \<and>
   parse_clauses (Suc (Suc (Suc 0))) (parse_statement (Suc (Suc (Suc 0)))) Polarity_consumer 1
     (Parser_new builtin_ctx, istream_of ''((Nil [1 <END>]) (Nil [2 <END>])))'') =
     Some (Inl (Parse_exception 1 1 ''case expression''
                  ''Duplicate or mismatched structor: Nil'')) \<and>
   parse_clauses (Suc (Suc (Suc 0))) (parse_statement (Suc (Suc (Suc 0)))) Polarity_consumer 1
     (Parser_new builtin_ctx, istream_of ''())'') =
     Some (Inl (Parse_exception 1 1 ''case expression'' ''empty clause list'')) \<and>
   parse_clauses (Suc (Suc (Suc 0))) (parse_statement (Suc (Suc (Suc 0)))) Polarity_producer 1
     (Parser_new builtin_ctx, istream_of ''())'') =
     Some (Inl (Parse_exception 1 1 ''cocase expression'' ''empty clause list''))"
proof -
  let ?n = "Suc (Suc (Suc 0))"
  let ?ps = "parse_statement ?n"
  let ?st = "(Parser_new builtin_ctx, istream_of ''((Nil [1 <END>]) (Cons (a b) [a <END>])))'')"
  let ?cs = "[Clause 0 ''Nil'' [] [] [] [] (Cut_stmt (Value_prod 1 None) (End_cons None)),
              Clause 1 ''Cons'' [''a'', ''b''] [] [0, 1] []
                (Cut_stmt (Variable_prod 0 ''a'' None) (End_cons None))]"
  let ?st2 = "(Parser_new builtin_ctx, istream_of ''((Cons (a b) [a <END>])))'')"
  let ?cs2 = "[Clause 1 ''Cons'' [''a'', ''b''] [] [0, 1] []
                 (Cut_stmt (Variable_prod 0 ''a'' None) (End_cons None))]"
  let ?st3 = "(Parser_new builtin_ctx, istream_of ''((Nil [1 <END>]) (Nil [2 <END>])))'')"
  let ?cs3 = "[Clause 0 ''Nil'' [] [] [] [] (Cut_stmt (Value_prod 1 None) (End_cons None)),
               Clause 0 ''Nil'' [] [] [] [] (Cut_stmt (Value_prod 2 None) (End_cons None))]"
  let ?st4 = "(Parser_new builtin_ctx, istream_of ''())'')"
  have "\<exists>p input. parse_list ?n (parse_clause ?n ?ps Polarity_consumer)
                      ''case clause'' ?st = Some (Inr (?cs, p, input)) \<and>
                    parser_ctx p = builtin_ctx \<and> current_line p = 1"
    by (simp add: clause_eval parsers_Suc parse_defs parser_monad_defs stream_eval char_of_def
          stoll_def Parser_new_def)
  then obtain p input where
    pl: "parse_list ?n (parse_clause ?n ?ps Polarity_consumer)
           ''case clause'' ?st = Some (Inr (?cs, p, input))"
    and ctx: "parser_ctx p = builtin_ctx" and line: "current_line p = 1"
    by blast
  have sl: "structors_like (parser_ctx p) (clause_abstraction_id (hd ?cs)) = Inr {1, 0}"
    by (simp add: ctx structors_like_def builtin_ctx_def)
  have r1: "parse_clauses ?n ?ps Polarity_consumer 1 ?st = Some (Inr (?cs, p, input)) \<and>
            mset (map clause_abstraction_id ?cs) = mset_set {1, 0}"
    using clause_list_total [where n = "?n" and ps = "?ps" and pol = Polarity_consumer
        and st = "?st" and cs = "?cs" and p = p and input = input and S = "{1, 0}"
        and start = 1] pl sl
    by simp
  have "\<exists>p input. parse_list ?n (parse_clause ?n ?ps Polarity_consumer)
                      ''case clause'' ?st2 = Some (Inr (?cs2, p, input)) \<and>
                    parser_ctx p = builtin_ctx \<and> current_line p = 1"
    by (simp add: clause_eval parsers_Suc parse_defs parser_monad_defs stream_eval char_of_def
          stoll_def Parser_new_def)
  then obtain p2 input2 where
    pl2: "parse_list ?n (parse_clause ?n ?ps Polarity_consumer)
           ''case clause'' ?st2 = Some (Inr (?cs2, p2, input2))"
    and ctx2: "parser_ctx p2 = builtin_ctx" and line2: "current_line p2 = 1"
    by blast
  have sl2: "structors_like (parser_ctx p2) (clause_abstraction_id (hd ?cs2)) = Inr {1, 0}"
    by (simp add: ctx2 structors_like_def builtin_ctx_def)
  have r2: "parse_clauses ?n ?ps Polarity_consumer 1 ?st2 =
              Some (Inl (Parse_exception 1 1 ''case expression'' ''incomplete clause list''))"
    using clause_list_total [where n = "?n" and ps = "?ps" and pol = Polarity_consumer
        and st = "?st2" and cs = "?cs2" and p = p2 and input = input2 and S = "{1, 0}"
        and start = 1] pl2 sl2 line2
    by auto
  have "\<exists>p input. parse_list ?n (parse_clause ?n ?ps Polarity_consumer)
                      ''case clause'' ?st3 = Some (Inr (?cs3, p, input)) \<and>
                    parser_ctx p = builtin_ctx \<and> current_line p = 1"
    by (simp add: clause_eval parsers_Suc parse_defs parser_monad_defs stream_eval char_of_def
          stoll_def Parser_new_def)
  then obtain p3 input3 where
    pl3: "parse_list ?n (parse_clause ?n ?ps Polarity_consumer)
           ''case clause'' ?st3 = Some (Inr (?cs3, p3, input3))"
    and ctx3: "parser_ctx p3 = builtin_ctx" and line3: "current_line p3 = 1"
    by blast
  have sl3: "structors_like (parser_ctx p3) (clause_abstraction_id (hd ?cs3)) = Inr {1, 0}"
    by (simp add: ctx3 structors_like_def builtin_ctx_def)
  have r3: "parse_clauses ?n ?ps Polarity_consumer 1 ?st3 =
              Some (Inl (Parse_exception 1 1 ''case expression''
                           ''Duplicate or mismatched structor: Nil''))"
    using clause_list_total [where n = "?n" and ps = "?ps" and pol = Polarity_consumer
        and st = "?st3" and cs = "?cs3" and p = p3 and input = input3 and S = "{1, 0}"
        and start = 1] pl3 sl3 line3
    by auto
  have "\<exists>p input. parse_list ?n (parse_clause ?n ?ps Polarity_consumer)
                      ''case clause'' ?st4 = Some (Inr ([], p, input)) \<and> current_line p = 1"
    by (simp add: clause_eval parser_monad_defs stream_eval Parser_new_def)
  then obtain p4 input4 where
    pl4: "parse_list ?n (parse_clause ?n ?ps Polarity_consumer)
           ''case clause'' ?st4 = Some (Inr ([], p4, input4))"
    and line4: "current_line p4 = 1"
    by blast
  have r4: "parse_clauses ?n ?ps Polarity_consumer 1 ?st4 =
              Some (Inl (Parse_exception 1 1 ''case expression'' ''empty clause list''))"
    using clause_list_total [where n = "?n" and ps = "?ps" and pol = Polarity_consumer
        and st = "?st4" and cs = "[]" and p = p4 and input = input4 and start = 1] pl4 line4
    by simp
  have "\<exists>p input. parse_list ?n (parse_clause ?n ?ps Polarity_producer)
                      ''cocase clause'' ?st4 = Some (Inr ([], p, input)) \<and> current_line p = 1"
    by (simp add: clause_eval parser_monad_defs stream_eval Parser_new_def)
  then obtain p5 input5 where
    pl5: "parse_list ?n (parse_clause ?n ?ps Polarity_producer)
           ''cocase clause'' ?st4 = Some (Inr ([], p5, input5))"
    and line5: "current_line p5 = 1"
    by blast
  have r5: "parse_clauses ?n ?ps Polarity_producer 1 ?st4 =
              Some (Inl (Parse_exception 1 1 ''cocase expression'' ''empty clause list''))"
    using clause_list_total [where n = "?n" and ps = "?ps" and pol = Polarity_producer
        and st = "?st4" and cs = "[]" and p = p5 and input = input5 and start = 1] pl5 line5
    by simp
  show ?thesis
    using r1 r2 r3 r4 r5 by auto
qed

section \<open>Recursive calls in the typer\<close>

lemmas typer_monad_defs = typed_def typer_throw_def typer_then_def typer_assert_def read_typer_def
  update_typer_def typer_fresh_type_variable_def fresh_var_def fresh_covar_def var_type_def
  covar_type_def try_unify_def typer_instantiate_def abstraction_instance_def

lemmas ctx_eval = unify_def try_dereference_def follow_chain.simps instantiate_def clone_types_def
  get_abstraction_prototype_def get_abstraction_def get_primitive_prototype_def
  fresh_type_variable_def add_definition_def

lemma builtin_ctx_lengths:
  "length (types builtin_ctx) = 16" "length (abstractions builtin_ctx) = 8"
  by (simp_all add: builtin_ctx_def)

lemma polyrec_parse:
  "\<exists>p input.
     parse_program (Suc (Suc (Suc (Suc (Suc n))))) (Parser_new builtin_ctx, istream_of P_polyrec_bad) =
       Some (Inr (\<lparr>definitions =
                    [\<lparr>abstraction_id = 8, definition_name = ''PolyRec'', arg_names = [''x''],
                      coarg_names = [], arg_ids = [0], coarg_ids = [],
                      body = Call_stmt 0 ''PolyRec''
                               [Constructor_prod 2 ''Pair''
                                  [Variable_prod 0 ''x'' None, Variable_prod 0 ''x'' None] []
                                  None None] []\<rparr>],
                   statements = []\<rparr>, p, input)) \<and>
     parser_n_vars p = 1 \<and> parser_n_covars p = 0 \<and>
     parser_ctx p = builtin_ctx
       \<lparr>types := types builtin_ctx @ [Type_var 15],
        abstractions := abstractions builtin_ctx @
          [\<lparr>abs_type = None, abstraction_name = ''PolyRec'', abs_args = [16], abs_coargs = []\<rparr>]\<rparr>"
  by (simp add: P_polyrec_bad_def program_eval clause_eval parsers_Suc parse_defs parser_monad_defs
        stream_eval char_of_def stoll_def Parser_new_def ctx_eval builtin_ctx_lengths)


lemma polyrec_type_program:
  "\<exists>ctx'. type_program (Suc (Suc (Suc (Suc n)))) polyrec_program polyrec_ctx =
     Some (Inl (Multiple_typing_exception
                  [Single_typing_exception Kind_occurs 19 20
                     (Producer_ptr (Constructor_prod 2 ''Pair''
                        [Variable_prod 0 ''x'' None, Variable_prod 0 ''x'' None] [] None None))]),
           ctx')"
  by (simp add: type_program_def polyrec_program_def polyrec_ctx_def Typer_new_def
        check_definition_def check_definition_prologue_def typer_monad_defs ctx_eval builtin_ctx_def)


lemma polyrec_main: "main (Suc (Suc (Suc (Suc (Suc n))))) P_polyrec_bad = Some (Exit_code 2)"
proof -
  obtain p input where
    "parse_program (Suc (Suc (Suc (Suc (Suc n))))) (Parser_new builtin_ctx, istream_of P_polyrec_bad) =
       Some (Inr (polyrec_program, p, input))" "parser_ctx p = polyrec_ctx"
    using polyrec_parse [of n] unfolding polyrec_program_def polyrec_ctx_def by blast
  moreover obtain ctx' where
    "type_program (Suc (Suc (Suc (Suc (Suc n))))) polyrec_program polyrec_ctx =
     Some (Inl (Multiple_typing_exception
                  [Single_typing_exception Kind_occurs 19 20
                     (Producer_ptr (Constructor_prod 2 ''Pair''
                        [Variable_prod 0 ''x'' None, Variable_prod 0 ''x'' None] [] None None))]),
           ctx')"
    using polyrec_type_program [of "Suc n"] by blast
  ultimately show ?thesis
    by (simp add: main_def default_typing_context_eq)
qed

lemma poly_call_main: "main (Suc (Suc (Suc (Suc (Suc n))))) P_poly_call = Some (Exit_code 0)"
  by (simp add: main_def default_typing_context_eq P_poly_call_def
        program_eval clause_eval parsers_Suc parse_defs parser_monad_defs
        stream_eval char_of_def stoll_def Parser_new_def ctx_eval builtin_ctx_lengths
        type_program_def Typer_new_def check_definition_def check_definition_prologue_def typer_monad_defs builtin_ctx_def
        run_def Interpreter_new_def)


lemma keeps_typed: "keeps_current_definition (typed x)"
  by (simp add: keeps_current_definition_def typed_def)

lemma keeps_typer_throw: "keeps_current_definition (typer_throw e)"
  by (simp add: keeps_current_definition_def typer_throw_def)

lemma keeps_typer_then:
  assumes "keeps_current_definition m" and "\<And>x. keeps_current_definition (f x)"
  shows "keeps_current_definition (typer_then m f)"
  unfolding keeps_current_definition_def
proof (intro allI impI)
  fix t r t'
  assume a: "typer_then m f t = Some (r, t')"
  show "current_definition t' = current_definition t"
  proof (cases "m t")
    case None
    then show ?thesis
      using a by (simp add: typer_then_def)
  next
    case (Some y)
    obtain r1 t1 where y: "y = (r1, t1)"
      by (cases y)
    have c1: "current_definition t1 = current_definition t"
      using assms(1) Some y by (simp add: keeps_current_definition_def)
    show ?thesis
    proof (cases r1)
      case (Inl e)
      then show ?thesis
        using a Some y c1 by (simp add: typer_then_def)
    next
      case (Inr x)
      then have "f x t1 = Some (r, t')"
        using a Some y by (simp add: typer_then_def)
      then show ?thesis
        using assms(2) [of x] c1 by (simp add: keeps_current_definition_def)
    qed
  qed
qed

lemma keeps_case_prod:
  "(\<And>a b. keeps_current_definition (f a b)) \<Longrightarrow> keeps_current_definition (case_prod f x)"
  by (cases x) simp

lemma keeps_case_option:
  "keeps_current_definition a \<Longrightarrow> (\<And>y. keeps_current_definition (b y)) \<Longrightarrow>
   keeps_current_definition (case_option a b x)"
  by (cases x) simp_all

lemma keeps_if:
  "(c \<Longrightarrow> keeps_current_definition a) \<Longrightarrow> (\<not> c \<Longrightarrow> keeps_current_definition b) \<Longrightarrow>
   keeps_current_definition (if c then a else b)"
  by simp

lemma keeps_typer_assert: "keeps_current_definition (typer_assert b)"
  by (simp add: typer_assert_def keeps_typed keeps_typer_throw)

lemma keeps_read_typer: "keeps_current_definition (read_typer f)"
  by (simp add: keeps_current_definition_def read_typer_def)

lemma keeps_fresh_type_variable: "keeps_current_definition typer_fresh_type_variable"
  by (auto simp add: keeps_current_definition_def typer_fresh_type_variable_def
        split: prod.splits)

lemma keeps_update_typer:
  "(\<And>t. current_definition (f t) = current_definition t) \<Longrightarrow>
   keeps_current_definition (update_typer f)"
  by (auto simp add: keeps_current_definition_def update_typer_def)

lemma keeps_fresh_var: "keeps_current_definition (fresh_var v)"
  unfolding fresh_var_def
  by (intro keeps_typer_then keeps_read_typer keeps_typer_assert keeps_fresh_type_variable
        keeps_update_typer) simp

lemma keeps_fresh_covar: "keeps_current_definition (fresh_covar v)"
  unfolding fresh_covar_def
  by (intro keeps_typer_then keeps_read_typer keeps_typer_assert keeps_fresh_type_variable
        keeps_update_typer) simp

lemma keeps_fresh_vars: "keeps_current_definition (fresh_vars vs)"
  by (induction vs) (simp_all add: keeps_typed keeps_typer_then keeps_fresh_var)

lemma keeps_fresh_covars: "keeps_current_definition (fresh_covars vs)"
  by (induction vs) (simp_all add: keeps_typed keeps_typer_then keeps_fresh_covar)

lemma keeps_var_type: "keeps_current_definition (var_type v)"
  by (auto simp add: keeps_current_definition_def var_type_def split: option.splits)

lemma keeps_covar_type: "keeps_current_definition (covar_type v)"
  by (auto simp add: keeps_current_definition_def covar_type_def split: option.splits)

lemma keeps_try_unify: "keeps_current_definition (try_unify depth a b ptr)"
  by (auto simp add: keeps_current_definition_def try_unify_def
        split: option.splits prod.splits unify_result.splits ctx_error.splits)

lemma keeps_typer_instantiate: "keeps_current_definition (typer_instantiate depth aid)"
  by (auto simp add: keeps_current_definition_def typer_instantiate_def
        split: option.splits sum.splits prod.splits)

lemma keeps_abstraction_instance: "keeps_current_definition (abstraction_instance depth aid)"
  using keeps_typer_instantiate [of depth aid]
  by (auto simp add: keeps_current_definition_def abstraction_instance_def
        split: sum.splits if_splits)

lemma keeps_unify_vars: "keeps_current_definition (unify_vars depth vs hs ptr)"
  by (induction depth vs hs ptr rule: unify_vars.induct)
     (simp_all add: keeps_typed keeps_typer_then keeps_var_type keeps_try_unify)

lemma keeps_unify_covars: "keeps_current_definition (unify_covars depth vs hs ptr)"
  by (induction depth vs hs ptr rule: unify_covars.induct)
     (simp_all add: keeps_typed keeps_typer_then keeps_covar_type keeps_try_unify)

lemmas keeps_intros = keeps_typed keeps_typer_throw keeps_typer_then keeps_case_prod
  keeps_case_option keeps_if keeps_typer_assert keeps_read_typer keeps_fresh_type_variable
  keeps_fresh_var keeps_fresh_covar keeps_fresh_vars keeps_fresh_covars keeps_var_type
  keeps_covar_type keeps_try_unify keeps_typer_instantiate keeps_abstraction_instance
  keeps_unify_vars keeps_unify_covars

lemma check_keeps_current_definition:
  "keeps_current_definition (check_producer depth p ty)"
  "keeps_current_definition (check_consumer depth c ty)"
  "keeps_current_definition (check_statement depth s)"
  "keeps_current_definition (check_clause depth cl ty)"
  "keeps_current_definition (check_abstraction depth aid args coargs ptr oty)"
  "keeps_current_definition (check_producers depth ps hs)"
  "keeps_current_definition (check_consumers depth cs hs)"
  "keeps_current_definition (check_clauses depth cls ty)"
proof (induction depth p ty and depth c ty and depth s and depth cl ty
         and depth aid args coargs ptr oty and depth ps hs and depth cs hs
         and depth cls ty
       rule: check_producer_check_consumer_check_statement_check_clause_check_abstraction_check_producers_check_consumers_check_clauses.induct)
  case (16 depth aid args coargs ptr oty)
  show ?case
    by (subst check_abstraction.simps) (intro keeps_intros 16)
qed (simp_all (no_asm_simp) del: check_abstraction.simps,
     (intro keeps_intros | assumption | simp (no_asm_simp) del: check_abstraction.simps)+)


lemma try_dereference_length:
  "try_dereference ts h = Some (Inr (r, ts')) \<Longrightarrow> length ts' = length ts"
  by (auto simp add: try_dereference_def fold_update_length split: option.splits sum.splits)

lemma clone_params_fresh:
  assumes rec: "\<And>ts m p h ts' m'.
      \<lbrakk>rec ts m p = Some (Inr (h, ts', m')); N \<le> length ts; \<forall>k v. m k = Some v \<longrightarrow> N \<le> v\<rbrakk>
      \<Longrightarrow> N \<le> h \<and> length ts \<le> length ts' \<and> (\<forall>k v. m' k = Some v \<longrightarrow> N \<le> v)"
  shows "\<lbrakk>clone_params rec ts m ps = Some (Inr (hs, ts', m')); N \<le> length ts;
          \<forall>k v. m k = Some v \<longrightarrow> N \<le> v\<rbrakk>
         \<Longrightarrow> (\<forall>h\<in>set hs. N \<le> h) \<and> length hs = length ps \<and> length ts \<le> length ts' \<and>
             (\<forall>k v. m' k = Some v \<longrightarrow> N \<le> v)"
proof (induction ps arbitrary: ts m hs ts' m')
  case Nil
  then show ?case
    by simp
next
  case (Cons p ps)
  from Cons.prems(1) obtain h ts1 m1 hs1 where
    r: "rec ts m p = Some (Inr (h, ts1, m1))"
    and c: "clone_params rec ts1 m1 ps = Some (Inr (hs1, ts', m'))"
    and hs: "hs = h # hs1"
    by (auto split: option.splits sum.splits)
  from rec [OF r Cons.prems(2,3)]
  have 1: "N \<le> h" "length ts \<le> length ts1" "\<forall>k v. m1 k = Some v \<longrightarrow> N \<le> v"
    by auto
  have "N \<le> length ts1"
    using 1(2) Cons.prems(2) by simp
  from Cons.IH [OF c this 1(3)] 1 hs show ?case
    by auto
qed

lemma clone_type_rec_fresh:
  "\<lbrakk>clone_type_rec depth ts m ty = Some (Inr (h, ts', m')); N \<le> length ts;
    \<forall>k v. m k = Some v \<longrightarrow> N \<le> v\<rbrakk>
   \<Longrightarrow> N \<le> h \<and> length ts \<le> length ts' \<and> (\<forall>k v. m' k = Some v \<longrightarrow> N \<le> v)"
proof (induction depth arbitrary: ts m ty h ts' m')
  case 0
  then show ?case
    by simp
next
  case (Suc depth)
  from Suc.prems(1) obtain t ts1 where
    d: "try_dereference ts ty = Some (Inr (t, ts1))"
    by (auto split: option.splits sum.splits)
  have len1: "length ts1 = length ts"
    using d by (rule try_dereference_length)
  show ?case
  proof (cases "m t")
    case (Some v)
    then show ?thesis
      using Suc.prems d len1 by auto
  next
    case None
    show ?thesis
    proof (cases "ts1 ! t")
      case (Type_var x)
      then show ?thesis
        using Suc.prems d len1 None by (auto simp add: fresh_type_variable_def split: if_splits)
    next
      case (Concrete_type type_id params)
      let ?ts2 = "ts1 @ [Concrete_type type_id []]"
      let ?m2 = "m(t \<mapsto> length ts1)"
      from Suc.prems(1) d None Concrete_type obtain new_params ts3 tid ps3 where
        c: "clone_params (clone_type_rec depth) ?ts2 ?m2 params = Some (Inr (new_params, ts3, m'))"
        and r: "h = length ts1" "ts' = ts3[length ts1 := Concrete_type tid new_params]"
        by (auto simp add: Let_def split: option.splits sum.splits type_instance.splits)
      have "N \<le> length ?ts2"
        using Suc.prems(2) len1 by simp
      moreover have "\<forall>k v. ?m2 k = Some v \<longrightarrow> N \<le> v"
        using Suc.prems(2,3) len1 by auto
      ultimately have "length ?ts2 \<le> length ts3 \<and> (\<forall>k v. m' k = Some v \<longrightarrow> N \<le> v)"
        using clone_params_fresh [of "clone_type_rec depth" N ?ts2 ?m2 params new_params ts3 m']
          Suc.IH c by blast
      then show ?thesis
        using r len1 Suc.prems(2) by auto
    next
      case (Type_handle x)
      then show ?thesis
        using Suc.prems(1) d None by simp
    qed
  qed
qed

lemma instantiate_fresh:
  assumes "instantiate depth ctx aid = Some (Inr (instance, ctx'))"
  shows "(\<forall>h\<in>set (abs_args instance) \<union> set (abs_coargs instance). length (types ctx) \<le> h) \<and>
         (\<forall>h. abs_type instance = Some h \<longrightarrow> length (types ctx) \<le> h)"
proof -
  let ?a = "abstractions ctx ! aid"
  let ?to_clone = "abs_args ?a @ abs_coargs ?a @ (case abs_type ?a of Some t \<Rightarrow> [t] | None \<Rightarrow> [])"
  from assms obtain fresh_types ts where
    c: "clone_types depth (types ctx) ?to_clone = Some (Inr (fresh_types, ts))"
    and i: "instance = \<lparr>abs_type = (case abs_type ?a of Some t \<Rightarrow> Some (last fresh_types)
                                      | None \<Rightarrow> None),
                        abstraction_name = [],
                        abs_args = take (length (abs_args ?a)) fresh_types,
                        abs_coargs = take (length (abs_coargs ?a))
                                       (drop (length (abs_args ?a)) fresh_types)\<rparr>"
    by (auto simp add: instantiate_def Let_def split: if_splits option.splits sum.splits)
  from c obtain m' where
    p: "clone_params (clone_type_rec depth) (types ctx) Map.empty ?to_clone =
          Some (Inr (fresh_types, ts, m'))"
    by (auto simp add: clone_types_def split: option.splits sum.splits)
  have f: "(\<forall>h\<in>set fresh_types. length (types ctx) \<le> h) \<and> length fresh_types = length ?to_clone"
    using clone_params_fresh [of "clone_type_rec depth" "length (types ctx)" "types ctx"
        Map.empty ?to_clone fresh_types ts m'] p clone_type_rec_fresh
    by blast
  have a: "\<forall>h\<in>set (abs_args instance). length (types ctx) \<le> h"
    using f i by (auto dest: in_set_takeD)
  have b: "\<forall>h\<in>set (abs_coargs instance). length (types ctx) \<le> h"
    using f i by (auto dest!: in_set_takeD in_set_dropD)
  have "\<forall>h. abs_type instance = Some h \<longrightarrow> length (types ctx) \<le> h"
  proof (intro allI impI)
    fix h
    assume "abs_type instance = Some h"
    then obtain t where "abs_type ?a = Some t" and h: "h = last fresh_types"
      using i by (auto split: option.splits)
    then have "fresh_types \<noteq> []"
      using f by auto
    then show "length (types ctx) \<le> h"
      using f h by auto
  qed
  then show ?thesis
    using a b by auto
qed


lemma typer_then_Inr:
  "(typer_then m f t = Some (Inr r, t')) =
     (\<exists>x t0. m t = Some (Inr x, t0) \<and> f x t0 = Some (Inr r, t'))"
  by (auto simp add: typer_then_def split: option.splits sum.splits prod.splits)

lemma check_definition_prologue_sets:
  assumes "check_definition_prologue depth d t = Some (Inr u, t1)"
  shows "current_definition t1 = Some (abstraction_id d)"
proof -
  define rest :: "Abstraction \<Rightarrow> unit typing" where "rest = (\<lambda>abstraction.
     typer_then (typer_assert (abs_type abstraction = None)) (\<lambda>u.
     typer_then (typer_assert (length (abs_args abstraction) = length (arg_ids d))) (\<lambda>u.
     typer_then (typer_assert (length (abs_coargs abstraction) = length (coarg_ids d))) (\<lambda>u.
     typer_then (unify_vars depth (arg_ids d) (abs_args abstraction) (Definition_ptr d)) (\<lambda>u.
       unify_covars depth (coarg_ids d) (abs_coargs abstraction) (Definition_ptr d))))))"
  have k: "keeps_current_definition (rest abstraction)" for abstraction
    unfolding rest_def by (intro keeps_intros)
  have eq: "check_definition_prologue depth d =
     typer_then (fresh_vars (arg_ids d)) (\<lambda>u.
     typer_then (fresh_covars (coarg_ids d)) (\<lambda>u.
     typer_then (read_typer (\<lambda>t. get_abstraction (typer_ctx t) (abstraction_id d))) (\<lambda>found.
       case found of
         Inl e \<Rightarrow> typer_throw (Typer_ctx_error e)
       | Inr abstraction \<Rightarrow>
           typer_then (update_typer (\<lambda>t. t\<lparr>current_definition := Some (abstraction_id d)\<rparr>))
             (\<lambda>u. rest abstraction))))"
    unfolding check_definition_prologue_def rest_def by (rule refl)
  from assms obtain abstraction t0 where
    "rest abstraction (t0\<lparr>current_definition := Some (abstraction_id d)\<rparr>) = Some (Inr u, t1)"
    unfolding eq
    by (auto simp add: typer_then_Inr read_typer_def update_typer_def typer_throw_def
          split: sum.splits) (metis sumE)
  with k [of abstraction] show ?thesis
    unfolding keeps_current_definition_def by force
qed

lemma abstraction_instance_self:
  assumes "current_definition t = Some aid" and "aid < length (abstractions (typer_ctx t))"
  shows "abstraction_instance depth aid t =
           Some (Inr \<lparr>abs_type = None,
                      abstraction_name = abstraction_name (abstractions (typer_ctx t) ! aid),
                      abs_args = abs_args (abstractions (typer_ctx t) ! aid),
                      abs_coargs = abs_coargs (abstractions (typer_ctx t) ! aid)\<rparr>, t)"
  using assms by (simp add: abstraction_instance_def get_abstraction_prototype_def Let_def)

lemma abstraction_instance_other:
  assumes "current_definition t \<noteq> Some aid"
  shows "abstraction_instance depth aid t = typer_instantiate depth aid t"
  using assms by (simp add: abstraction_instance_def)

lemma typer_instantiate_fresh:
  assumes "typer_instantiate depth aid t = Some (Inr instance, t')"
  shows "(\<forall>h\<in>set (abs_args instance) \<union> set (abs_coargs instance).
            length (types (typer_ctx t)) \<le> h) \<and>
         (\<forall>h. abs_type instance = Some h \<longrightarrow> length (types (typer_ctx t)) \<le> h)"
proof -
  from assms obtain ctx' where
    "instantiate depth (typer_ctx t) aid = Some (Inr (instance, ctx'))"
    by (auto simp add: typer_instantiate_def split: option.splits sum.splits)
  then show ?thesis
    by (rule instantiate_fresh)
qed

text \<open>
  Claim C3. \<open>check(Definition&)\<close> notes the definition as current before it checks the
  body, and no \<open>check\<close> overload changes \<open>current_definition\<close>, so it is current for
  the whole body. There \<open>check_abstraction\<close> takes, for the definition itself, the
  abstraction's own handles and leaves the store as it is (\<open>get_abstraction_prototype\<close>),
  and for every other abstraction the result of \<open>instantiate\<close>, all of whose handles
  are new. \<open>def_poly_recursion_bad\<close> parses, is rejected by \<open>type_program\<close> with one
  typing exception (an occurs-check failure at the argument \<open>Pair(x, x)\<close>), and \<open>main\<close>
  returns 2; the program that passes \<open>Pair(x, x)\<close> to another definition is accepted.
\<close>

theorem no_polymorphic_recursion:
  "(check_definition_prologue depth d t = Some (Inr u, t1) \<longrightarrow>
      current_definition t1 = Some (abstraction_id d)) \<and>
   keeps_current_definition (check_statement depth s) \<and>
   keeps_current_definition (check_producer depth p ty) \<and>
   keeps_current_definition (check_consumer depth c ty) \<and>
   keeps_current_definition (check_clause depth cl ty) \<and>
   (current_definition t = Some aid \<and> aid < length (abstractions (typer_ctx t)) \<longrightarrow>
      abstraction_instance depth aid t =
        Some (Inr \<lparr>abs_type = None,
                   abstraction_name = abstraction_name (abstractions (typer_ctx t) ! aid),
                   abs_args = abs_args (abstractions (typer_ctx t) ! aid),
                   abs_coargs = abs_coargs (abstractions (typer_ctx t) ! aid)\<rparr>, t)) \<and>
   (current_definition t \<noteq> Some aid \<longrightarrow>
      abstraction_instance depth aid t = typer_instantiate depth aid t \<and>
      (\<forall>instance t'. typer_instantiate depth aid t = Some (Inr instance, t') \<longrightarrow>
         (\<forall>h\<in>set (abs_args instance) \<union> set (abs_coargs instance).
            length (types (typer_ctx t)) \<le> h) \<and>
         (\<forall>h. abs_type instance = Some h \<longrightarrow> length (types (typer_ctx t)) \<le> h))) \<and>
   (\<exists>parser input ctx'.
      parse_program (Suc (Suc (Suc (Suc (Suc n)))))
        (Parser_new builtin_ctx, istream_of P_polyrec_bad) =
        Some (Inr (polyrec_program, parser, input)) \<and>
      type_program (Suc (Suc (Suc (Suc (Suc n))))) polyrec_program (parser_ctx parser) =
        Some (Inl (Multiple_typing_exception
                     [Single_typing_exception Kind_occurs 19 20
                        (Producer_ptr (Constructor_prod 2 ''Pair''
                           [Variable_prod 0 ''x'' None, Variable_prod 0 ''x'' None] []
                           None None))]), ctx')) \<and>
   main (Suc (Suc (Suc (Suc (Suc n))))) P_polyrec_bad = Some (Exit_code 2) \<and>
   main (Suc (Suc (Suc (Suc (Suc n))))) P_poly_call = Some (Exit_code 0)"
proof -
  obtain parser input where
    p: "parse_program (Suc (Suc (Suc (Suc (Suc n))))) (Parser_new builtin_ctx, istream_of P_polyrec_bad) =
       Some (Inr (polyrec_program, parser, input))" "parser_ctx parser = polyrec_ctx"
    using polyrec_parse [of n] unfolding polyrec_program_def polyrec_ctx_def by blast
  obtain ctx' where
    t: "type_program (Suc (Suc (Suc (Suc (Suc n))))) polyrec_program polyrec_ctx =
     Some (Inl (Multiple_typing_exception
                  [Single_typing_exception Kind_occurs 19 20
                     (Producer_ptr (Constructor_prod 2 ''Pair''
                        [Variable_prod 0 ''x'' None, Variable_prod 0 ''x'' None] [] None None))]),
           ctx')"
    using polyrec_type_program [of "Suc n"] by blast
  show ?thesis
    using check_definition_prologue_sets [of depth d t u t1]
      check_keeps_current_definition(1-4) [of depth]
      abstraction_instance_self [of t aid depth] abstraction_instance_other [of t aid depth]
      typer_instantiate_fresh [of depth aid t] p t polyrec_main [of n] poly_call_main [of n]
    by (intro conjI impI allI exI [of _ parser] exI [of _ input] exI [of _ ctx']) auto
qed


theorem no_polymorphic_recursion_witness:
  "\<exists>t0 t1.
     Typer_new polyrec_ctx (definitions polyrec_program) = Inr t0 \<and>
     check_definition_prologue (Suc (Suc 0)) (hd (definitions polyrec_program)) t0 =
       Some (Inr (), t1) \<and>
     current_definition t1 = Some 8 \<and>
     (\<exists>instance. abstraction_instance (Suc (Suc 0)) 8 t1 = Some (Inr instance, t1) \<and>
                 abs_args instance = [16]) \<and>
     abstraction_instance (Suc (Suc 0)) 2 t1 = typer_instantiate (Suc (Suc 0)) 2 t1 \<and>
     main (Suc (Suc (Suc (Suc (Suc 0))))) P_polyrec_bad = Some (Exit_code 2) \<and>
     main (Suc (Suc (Suc (Suc (Suc 0))))) P_poly_call = Some (Exit_code 0)"
proof -
  let ?d = "hd (definitions polyrec_program)"
  have "\<exists>t0 t1. Typer_new polyrec_ctx (definitions polyrec_program) = Inr t0 \<and>
          check_definition_prologue (Suc (Suc 0)) ?d t0 = Some (Inr (), t1) \<and>
          length (abstractions (typer_ctx t1)) = 9 \<and>
          abs_args (abstractions (typer_ctx t1) ! 8) = [16]"
    by (simp add: polyrec_program_def polyrec_ctx_def Typer_new_def
          check_definition_prologue_def typer_monad_defs ctx_eval builtin_ctx_def)
  then obtain t0 t1 where
    t0: "Typer_new polyrec_ctx (definitions polyrec_program) = Inr t0"
    and t1: "check_definition_prologue (Suc (Suc 0)) ?d t0 = Some (Inr (), t1)"
    and len: "length (abstractions (typer_ctx t1)) = 9"
    and args: "abs_args (abstractions (typer_ctx t1) ! 8) = [16]"
    by blast
  have d: "abstraction_id ?d = 8"
    by (simp add: polyrec_program_def)
  note thm0 = no_polymorphic_recursion
    [where depth = "Suc (Suc 0)" and d = ?d and t = t0 and u = "()" and ?t1.0 = t1 and n = 0]
  note thm1 = no_polymorphic_recursion
    [where depth = "Suc (Suc 0)" and t = t1 and aid = 8 and n = 0]
  note thm2 = no_polymorphic_recursion
    [where depth = "Suc (Suc 0)" and t = t1 and aid = 2 and n = 0]
  have cd: "current_definition t1 = Some 8"
    using thm0 t1 d by simp
  have self: "\<exists>instance. abstraction_instance (Suc (Suc 0)) 8 t1 = Some (Inr instance, t1) \<and>
                 abs_args instance = [16]"
    using thm1 cd len args by simp
  have other: "abstraction_instance (Suc (Suc 0)) 2 t1 = typer_instantiate (Suc (Suc 0)) 2 t1"
    using thm2 cd by simp
  show ?thesis
    using t0 t1 cd self other thm1 by blast
qed

section \<open>Binders of every kind\<close>

lemma word_hd:
  assumes "\<forall>c\<in>set name. word_char c" and "name \<noteq> []"
  shows "word_char (hd name)" and "\<not> isspace (of_char (hd name))"
    and "hd name \<noteq> CHR ''(''" and "hd name \<noteq> CHR '')''"
  using assms by (simp_all add: word_char_def)

lemmas binder_eval = parsers_Suc parse_defs clause_eval program_eval parser_monad_defs stream_eval
  char_of_def stoll_def Parser_new_def validate_clauses_def structors_like_def builtin_ctx_def
  of_char_eq_literal butlast_append

text \<open>A binder accepts every non-empty word of identifier characters: \<open>mu'\<close>, \<open>mu\<close>, the
  parameters of a \<open>case\<close> clause, the parameters and coparameters of a \<open>cocase\<close> clause and
  of a definition.\<close>

lemma mu_c_binder_any:
  assumes "\<forall>c\<in>set name. word_char c" and "length name < SIZE_MAX" and "name \<noteq> []"
  shows "parse_consumer (Suc (Suc (Suc n)))
           (p, istream_of (''(mu'' @ [CHR 0x27] @ '' '' @ name @ '' [1 <END>])'' @ rest)) =
         Some (Inr (Mu_cons (parser_n_vars p) name
                      (Cut_stmt (Value_prod 1 None) (End_cons None)) None,
                    p\<lparr>parser_n_vars := Suc (parser_n_vars p)\<rparr>,
                    \<lparr>buf = rest, eofbit = False, failbit = False\<rparr>))"
  using assms word_hd [OF assms(1,3)]
  by (simp add: parsers_Suc parse_defs parser_monad_defs stream_eval char_of_def stoll_def)

lemma mu_p_binder_any:
  assumes "\<forall>c\<in>set name. word_char c" and "length name < SIZE_MAX" and "name \<noteq> []"
  shows "parse_producer (Suc (Suc (Suc n)))
           (p, istream_of (''(mu '' @ name @ '' [1 <END>])'' @ rest)) =
         Some (Inr (Mu_prod (parser_n_covars p) name
                      (Cut_stmt (Value_prod 1 None) (End_cons None)) None,
                    p\<lparr>parser_n_covars := Suc (parser_n_covars p)\<rparr>,
                    \<lparr>buf = rest, eofbit = False, failbit = False\<rparr>))"
  using assms word_hd [OF assms(1,3)]
  by (simp add: parsers_Suc parse_defs parser_monad_defs stream_eval char_of_def stoll_def)

lemma case_binder_any:
  assumes "\<forall>c\<in>set name. word_char c" and "length name < SIZE_MAX" and "name \<noteq> []"
  shows "parse_consumer (Suc (Suc (Suc (Suc n))))
           ((Parser_new builtin_ctx)\<lparr>parser_n_vars := nv, parser_n_covars := ncv,
                                     var_ctx := vc, covar_ctx := cc\<rparr>,
            istream_of (''(case ((Nil [1 <END>]) (Cons ('' @ name @ '' '' @ name @
                          '') [1 <END>])))'' @ rest)) =
         Some (Inr (Case_cons
                      [Clause 0 ''Nil'' [] [] [] [] (Cut_stmt (Value_prod 1 None) (End_cons None)),
                       Clause 1 ''Cons'' [name, name] [] [nv, Suc nv] []
                         (Cut_stmt (Value_prod 1 None) (End_cons None))] None,
                    (Parser_new builtin_ctx)\<lparr>parser_n_vars := Suc (Suc nv), parser_n_covars := ncv,
                                     var_ctx := vc, covar_ctx := cc\<rparr>,
                    \<lparr>buf = rest, eofbit = False, failbit = False\<rparr>))"
  using assms word_hd [OF assms(1,3)]
  by (simp add: binder_eval) auto

lemma cocase_binder_any:
  assumes "\<forall>c\<in>set name. word_char c" and "length name < SIZE_MAX" and "name \<noteq> []"
  shows "parse_producer (Suc (Suc (Suc (Suc n))))
           ((Parser_new builtin_ctx)\<lparr>parser_n_vars := nv, parser_n_covars := ncv,
                                     var_ctx := vc, covar_ctx := cc\<rparr>,
            istream_of (''(cocase ((Ap ('' @ name @ '') ('' @ name @ '') [1 <END>])))'' @ rest)) =
         Some (Inr (Cocase_prod
                      [Clause 7 ''Ap'' [name] [name] [nv] [ncv]
                         (Cut_stmt (Value_prod 1 None) (End_cons None))] None,
                    (Parser_new builtin_ctx)\<lparr>parser_n_vars := Suc nv, parser_n_covars := Suc ncv,
                                     var_ctx := vc, covar_ctx := cc\<rparr>,
                    \<lparr>buf = rest, eofbit = False, failbit = False\<rparr>))"
  using assms word_hd [OF assms(1,3)]
  by (simp add: binder_eval)

lemma def_binder_any:
  assumes "\<forall>c\<in>set name. word_char c" and "length name < SIZE_MAX" and "name \<noteq> []"
  shows "\<exists>p'. parse_definition (Suc (Suc (Suc n)))
           ((Parser_new builtin_ctx)\<lparr>parser_n_vars := nv, parser_n_covars := ncv,
                                     var_ctx := vc, covar_ctx := cc\<rparr>,
            istream_of (''(def f ('' @ name @ '') ('' @ name @ '') [1 <END>])'' @ rest)) =
         Some (Inr (\<lparr>abstraction_id = 8, definition_name = ''f'', arg_names = [name],
                     coarg_names = [name], arg_ids = [nv], coarg_ids = [ncv],
                     body = Cut_stmt (Value_prod 1 None) (End_cons None)\<rparr>,
                    p', \<lparr>buf = rest, eofbit = False, failbit = False\<rparr>)) \<and>
         var_ctx p' = vc \<and> covar_ctx p' = cc \<and>
         parser_n_vars p' = Suc nv \<and> parser_n_covars p' = Suc ncv"
  using assms word_hd [OF assms(1,3)]
  by (simp add: binder_eval ctx_eval builtin_ctx_lengths)

text \<open>When the first character of the name is a letter, an occurrence in the scope of the
  binder carries the id of the binder. Of two parameters of the same name the last one is
  seen. Inside a second \<open>mu'\<close> of the same name the inner binder is seen, after it the
  outer one again.\<close>

lemma case_binder_use:
  assumes "\<forall>c\<in>set name. word_char c" and "length name < SIZE_MAX" and "name \<noteq> []"
    and "isalpha (of_char (hd name))"
  shows "parse_consumer (Suc (Suc (Suc (Suc n))))
           ((Parser_new builtin_ctx)\<lparr>parser_n_vars := nv, parser_n_covars := ncv,
                                     var_ctx := vc, covar_ctx := cc\<rparr>,
            istream_of (''(case ((Nil [1 <END>]) (Cons ('' @ name @ '' '' @ name @
                          '') ['' @ name @ '' <END>])))'' @ rest)) =
         Some (Inr (Case_cons
                      [Clause 0 ''Nil'' [] [] [] [] (Cut_stmt (Value_prod 1 None) (End_cons None)),
                       Clause 1 ''Cons'' [name, name] [] [nv, Suc nv] []
                         (Cut_stmt (Variable_prod (Suc nv) name None) (End_cons None))] None,
                    (Parser_new builtin_ctx)\<lparr>parser_n_vars := Suc (Suc nv), parser_n_covars := ncv,
                                     var_ctx := vc, covar_ctx := cc\<rparr>,
                    \<lparr>buf = rest, eofbit = False, failbit = False\<rparr>))"
  using assms word_hd [OF assms(1,3)]
  by (simp add: binder_eval) auto

lemma cocase_binder_use:
  assumes "\<forall>c\<in>set name. word_char c" and "length name < SIZE_MAX" and "name \<noteq> []"
    and "isalpha (of_char (hd name))"
  shows "parse_producer (Suc (Suc (Suc (Suc n))))
           ((Parser_new builtin_ctx)\<lparr>parser_n_vars := nv, parser_n_covars := ncv,
                                     var_ctx := vc, covar_ctx := cc\<rparr>,
            istream_of (''(cocase ((Ap ('' @ name @ '') ('' @ name @ '') ['' @ name @ '' '' @
                          name @ ''])))'' @ rest)) =
         Some (Inr (Cocase_prod
                      [Clause 7 ''Ap'' [name] [name] [nv] [ncv]
                         (Cut_stmt (Variable_prod nv name None) (Covariable_cons ncv name None))]
                      None,
                    (Parser_new builtin_ctx)\<lparr>parser_n_vars := Suc nv, parser_n_covars := Suc ncv,
                                     var_ctx := vc, covar_ctx := cc\<rparr>,
                    \<lparr>buf = rest, eofbit = False, failbit = False\<rparr>))"
  using assms word_hd [OF assms(1,3)]
  by (simp add: binder_eval)

lemma def_binder_use:
  assumes "\<forall>c\<in>set name. word_char c" and "length name < SIZE_MAX" and "name \<noteq> []"
    and "isalpha (of_char (hd name))"
  shows "\<exists>p'. parse_definition (Suc (Suc (Suc n)))
           ((Parser_new builtin_ctx)\<lparr>parser_n_vars := nv, parser_n_covars := ncv,
                                     var_ctx := vc, covar_ctx := cc\<rparr>,
            istream_of (''(def f ('' @ name @ '') ('' @ name @ '') ['' @ name @ '' '' @ name @
                          ''])'' @ rest)) =
         Some (Inr (\<lparr>abstraction_id = 8, definition_name = ''f'', arg_names = [name],
                     coarg_names = [name], arg_ids = [nv], coarg_ids = [ncv],
                     body = Cut_stmt (Variable_prod nv name None)
                              (Covariable_cons ncv name None)\<rparr>,
                    p', \<lparr>buf = rest, eofbit = False, failbit = False\<rparr>)) \<and>
         var_ctx p' = vc \<and> covar_ctx p' = cc \<and>
         parser_n_vars p' = Suc nv \<and> parser_n_covars p' = Suc ncv"
  using assms word_hd [OF assms(1,3)]
  by (simp add: binder_eval ctx_eval builtin_ctx_lengths)

lemma nested_binders:
  assumes "\<forall>c\<in>set name. word_char c" and "length name < SIZE_MAX" and "name \<noteq> []"
    and "isalpha (of_char (hd name))"
  shows "parse_consumer (Suc (Suc (Suc (Suc (Suc (Suc n))))))
           (p, istream_of (''(mu'' @ [CHR 0x27] @ '' '' @ name @ '' (ifz 0 [1 (mu'' @ [CHR 0x27] @
                 '' '' @ name @ '' ['' @ name @ '' <END>])] ['' @ name @ '' <END>]))'' @ rest)) =
         Some (Inr (Mu_cons (parser_n_vars p) name
                      (Ifz_stmt (Value_prod 0 None)
                         (Cut_stmt (Value_prod 1 None)
                            (Mu_cons (Suc (parser_n_vars p)) name
                               (Cut_stmt (Variable_prod (Suc (parser_n_vars p)) name None)
                                  (End_cons None)) None))
                         (Cut_stmt (Variable_prod (parser_n_vars p) name None) (End_cons None)))
                      None,
                    p\<lparr>parser_n_vars := Suc (Suc (parser_n_vars p))\<rparr>,
                    \<lparr>buf = rest, eofbit = False, failbit = False\<rparr>))"
  using assms word_hd [OF assms(1,3)]
  by (simp add: binder_eval parse_ifz_def)

text \<open>When the first character of the name is not a letter, an occurrence is never read
  as a variable or a covariable: \<open>parse_producer\<close> reads an integer literal or throws,
  \<open>parse_consumer\<close> reads \<open><END>\<close> or throws.\<close>

lemma parse_value_result:
  "parse_value st = Some (Inr (x, st')) \<Longrightarrow> \<exists>v. x = Value_prod v None"
  by (auto simp add: parse_value_def parser_monad_defs
        split: if_splits prod.splits sum.splits option.splits)

lemma parse_end_result:
  "parse_end st = Some (Inr (x, st')) \<Longrightarrow> x = End_cons None"
  by (auto simp add: parse_end_def parser_monad_defs
        split: if_splits prod.splits sum.splits option.splits)

lemma get_word_start:
  "name \<noteq> [] \<Longrightarrow>
   get \<lparr>buf = name @ rest, eofbit = False, failbit = False\<rparr> =
   (of_char (hd name), \<lparr>buf = tl name @ rest, eofbit = False, failbit = False\<rparr>)"
  by (cases name) (simp_all add: get_Cons)

lemma producer_use_needs_letter:
  assumes "\<forall>c\<in>set name. word_char c" and "name \<noteq> []"
    and "\<not> isalpha (of_char (hd name))"
  shows "parse_producer (Suc n) (p, \<lparr>buf = name @ rest, eofbit = False, failbit = False\<rparr>) \<noteq>
           Some (Inr (Variable_prod v nm t, st'))"
proof (cases "isdigit (of_char (hd name)) \<or> (of_char (hd name) :: int) = of_char CHR ''-''")
  case True
  then have eq: "parse_producer (Suc n)
                   (p, \<lparr>buf = name @ rest, eofbit = False, failbit = False\<rparr>) =
                 parse_value (p, \<lparr>buf = name @ rest, eofbit = False, failbit = False\<rparr>)"
    using assms word_hd [OF assms(1,2)]
    by (simp add: parsers_Suc parse_producer_at_def parser_monad_defs peek_word_start
          skip_whitespace_word)
  show ?thesis
  proof
    assume "parse_producer (Suc n) (p, \<lparr>buf = name @ rest, eofbit = False, failbit = False\<rparr>) =
              Some (Inr (Variable_prod v nm t, st'))"
    then have "parse_value (p, \<lparr>buf = name @ rest, eofbit = False, failbit = False\<rparr>) =
              Some (Inr (Variable_prod v nm t, st'))"
      using eq by simp
    from parse_value_result [OF this] show False
      by simp
  qed
next
  case False
  then have "parse_producer (Suc n) (p, \<lparr>buf = name @ rest, eofbit = False, failbit = False\<rparr>) =
             Some (Inl (Unexpected_char_exception (current_line p) (current_line p) ''producer''
                          (of_char (hd name))))"
    using assms word_hd [OF assms(1,2)]
    by (simp add: parsers_Suc parse_producer_at_def parser_monad_defs peek_word_start
          get_word_start skip_whitespace_word of_char_eq_literal)
  then show ?thesis
    by simp
qed

lemma consumer_use_needs_letter:
  assumes "\<forall>c\<in>set name. word_char c" and "name \<noteq> []"
    and "\<not> isalpha (of_char (hd name))"
  shows "parse_consumer (Suc n) (p, \<lparr>buf = name @ rest, eofbit = False, failbit = False\<rparr>) \<noteq>
           Some (Inr (Covariable_cons v nm t, st'))"
proof (cases "(of_char (hd name) :: int) = of_char CHR ''<''")
  case True
  then have eq: "parse_consumer (Suc n)
                   (p, \<lparr>buf = name @ rest, eofbit = False, failbit = False\<rparr>) =
                 parse_end (p, \<lparr>buf = name @ rest, eofbit = False, failbit = False\<rparr>)"
    using assms word_hd [OF assms(1,2)]
    by (simp add: parsers_Suc parse_consumer_at_def parser_monad_defs peek_word_start
          skip_whitespace_word keyword_end_def)
  show ?thesis
  proof
    assume "parse_consumer (Suc n) (p, \<lparr>buf = name @ rest, eofbit = False, failbit = False\<rparr>) =
              Some (Inr (Covariable_cons v nm t, st'))"
    then have "parse_end (p, \<lparr>buf = name @ rest, eofbit = False, failbit = False\<rparr>) =
              Some (Inr (Covariable_cons v nm t, st'))"
      using eq by simp
    from parse_end_result [OF this] show False
      by simp
  qed
next
  case False
  then have "parse_consumer (Suc n) (p, \<lparr>buf = name @ rest, eofbit = False, failbit = False\<rparr>) =
             Some (Inl (Unexpected_char_exception (current_line p) (current_line p) ''consumer''
                          (of_char (hd name))))"
    using assms word_hd [OF assms(1,2)]
    by (simp add: parsers_Suc parse_consumer_at_def parser_monad_defs peek_word_start
          get_word_start skip_whitespace_word of_char_eq_literal keyword_end_def)
  then show ?thesis
    by simp
qed

text \<open>
  Claim C8, amended. Let \<open>name\<close> be a non-empty word of identifier characters that is
  shorter than the default \<open>max_len\<close> of \<open>read_word\<close>.

  \<^item> Every binder accepts the name: \<open>mu'\<close> and \<open>mu\<close> in every parser state, and the
    parameter lists of a \<open>case\<close> clause, of a \<open>cocase\<close> clause and of a definition in every
    state of the parser of the default context, whatever its name stacks and counters
    are. The binder gives the name a fresh id, and the stacks are as before when the
    binder is left.
  \<^item> When the first character of the name is a letter: in every parser state in which the
    name is bound, its occurrence in producer position parses as the variable whose id is
    on top of the name's stack, the nearest enclosing binder, and likewise for a covariable
    in consumer position. A binder of each kind with an occurrence of the name in its
    body parses, the occurrence carrying the fresh id of that binder whatever the name
    was bound to outside; of two binders of the name, one inside the other, the inner one
    is seen in its body and the outer one after it.
  \<^item> When the first character of the name is not a letter, no occurrence of the name in
    producer position parses as a variable, and none in consumer position as a
    covariable.
\<close>

theorem identifier_binder_and_use:
  assumes "name \<noteq> []" and "\<forall>c\<in>set name. word_char c" and "length name < SIZE_MAX"
  shows
    "parse_consumer (Suc (Suc (Suc n)))
       (p, istream_of (''(mu'' @ [CHR 0x27] @ '' '' @ name @ '' [1 <END>])'' @ rest)) =
       Some (Inr (Mu_cons (parser_n_vars p) name
                    (Cut_stmt (Value_prod 1 None) (End_cons None)) None,
                  p\<lparr>parser_n_vars := Suc (parser_n_vars p)\<rparr>,
                  \<lparr>buf = rest, eofbit = False, failbit = False\<rparr>)) \<and>
     parse_producer (Suc (Suc (Suc n)))
       (p, istream_of (''(mu '' @ name @ '' [1 <END>])'' @ rest)) =
       Some (Inr (Mu_prod (parser_n_covars p) name
                    (Cut_stmt (Value_prod 1 None) (End_cons None)) None,
                  p\<lparr>parser_n_covars := Suc (parser_n_covars p)\<rparr>,
                  \<lparr>buf = rest, eofbit = False, failbit = False\<rparr>)) \<and>
     parse_consumer (Suc (Suc (Suc (Suc n))))
       ((Parser_new builtin_ctx)\<lparr>parser_n_vars := nv, parser_n_covars := ncv,
                                 var_ctx := vc, covar_ctx := cc\<rparr>,
        istream_of (''(case ((Nil [1 <END>]) (Cons ('' @ name @ '' '' @ name @
                      '') [1 <END>])))'' @ rest)) =
       Some (Inr (Case_cons
                    [Clause 0 ''Nil'' [] [] [] [] (Cut_stmt (Value_prod 1 None) (End_cons None)),
                     Clause 1 ''Cons'' [name, name] [] [nv, Suc nv] []
                       (Cut_stmt (Value_prod 1 None) (End_cons None))] None,
                  (Parser_new builtin_ctx)\<lparr>parser_n_vars := Suc (Suc nv), parser_n_covars := ncv,
                                   var_ctx := vc, covar_ctx := cc\<rparr>,
                  \<lparr>buf = rest, eofbit = False, failbit = False\<rparr>)) \<and>
     parse_producer (Suc (Suc (Suc (Suc n))))
       ((Parser_new builtin_ctx)\<lparr>parser_n_vars := nv, parser_n_covars := ncv,
                                 var_ctx := vc, covar_ctx := cc\<rparr>,
        istream_of (''(cocase ((Ap ('' @ name @ '') ('' @ name @ '') [1 <END>])))'' @ rest)) =
       Some (Inr (Cocase_prod
                    [Clause 7 ''Ap'' [name] [name] [nv] [ncv]
                       (Cut_stmt (Value_prod 1 None) (End_cons None))] None,
                  (Parser_new builtin_ctx)\<lparr>parser_n_vars := Suc nv, parser_n_covars := Suc ncv,
                                   var_ctx := vc, covar_ctx := cc\<rparr>,
                  \<lparr>buf = rest, eofbit = False, failbit = False\<rparr>)) \<and>
     (\<exists>p'. parse_definition (Suc (Suc (Suc n)))
           ((Parser_new builtin_ctx)\<lparr>parser_n_vars := nv, parser_n_covars := ncv,
                                     var_ctx := vc, covar_ctx := cc\<rparr>,
            istream_of (''(def f ('' @ name @ '') ('' @ name @ '') [1 <END>])'' @ rest)) =
         Some (Inr (\<lparr>abstraction_id = 8, definition_name = ''f'', arg_names = [name],
                     coarg_names = [name], arg_ids = [nv], coarg_ids = [ncv],
                     body = Cut_stmt (Value_prod 1 None) (End_cons None)\<rparr>,
                    p', \<lparr>buf = rest, eofbit = False, failbit = False\<rparr>)) \<and>
         var_ctx p' = vc \<and> covar_ctx p' = cc \<and>
         parser_n_vars p' = Suc nv \<and> parser_n_covars p' = Suc ncv) \<and>
     (isalpha (of_char (hd name)) \<longrightarrow>
        (var_ctx p name \<noteq> [] \<and> (rest = [] \<or> \<not> word_char (hd rest)) \<longrightarrow>
           parse_producer (Suc n) (p, \<lparr>buf = name @ rest, eofbit = False, failbit = False\<rparr>) =
             Some (Inr (Variable_prod (last (var_ctx p name)) name None, p,
                        \<lparr>buf = rest, eofbit = (rest = []), failbit = False\<rparr>))) \<and>
        (covar_ctx p name \<noteq> [] \<and> (rest = [] \<or> \<not> word_char (hd rest)) \<longrightarrow>
           parse_consumer (Suc n) (p, \<lparr>buf = name @ rest, eofbit = False, failbit = False\<rparr>) =
             Some (Inr (Covariable_cons (last (covar_ctx p name)) name None, p,
                        \<lparr>buf = rest, eofbit = (rest = []), failbit = False\<rparr>))) \<and>
        parse_consumer (Suc (Suc (Suc n)))
          (p, istream_of (''(mu'' @ [CHR 0x27] @ '' '' @ name @ '' ['' @ name @ '' <END>])'' @ rest)) =
          Some (Inr (Mu_cons (parser_n_vars p) name
                       (Cut_stmt (Variable_prod (parser_n_vars p) name None) (End_cons None)) None,
                     p\<lparr>parser_n_vars := Suc (parser_n_vars p)\<rparr>,
                     \<lparr>buf = rest, eofbit = False, failbit = False\<rparr>)) \<and>
        parse_producer (Suc (Suc (Suc n)))
          (p, istream_of (''(mu '' @ name @ '' [1 '' @ name @ ''])'' @ rest)) =
          Some (Inr (Mu_prod (parser_n_covars p) name
                       (Cut_stmt (Value_prod 1 None)
                          (Covariable_cons (parser_n_covars p) name None)) None,
                     p\<lparr>parser_n_covars := Suc (parser_n_covars p)\<rparr>,
                     \<lparr>buf = rest, eofbit = False, failbit = False\<rparr>)) \<and>
        parse_consumer (Suc (Suc (Suc (Suc n))))
          ((Parser_new builtin_ctx)\<lparr>parser_n_vars := nv, parser_n_covars := ncv,
                                    var_ctx := vc, covar_ctx := cc\<rparr>,
           istream_of (''(case ((Nil [1 <END>]) (Cons ('' @ name @ '' '' @ name @
                         '') ['' @ name @ '' <END>])))'' @ rest)) =
          Some (Inr (Case_cons
                       [Clause 0 ''Nil'' [] [] [] []
                          (Cut_stmt (Value_prod 1 None) (End_cons None)),
                        Clause 1 ''Cons'' [name, name] [] [nv, Suc nv] []
                          (Cut_stmt (Variable_prod (Suc nv) name None) (End_cons None))] None,
                     (Parser_new builtin_ctx)\<lparr>parser_n_vars := Suc (Suc nv),
                        parser_n_covars := ncv, var_ctx := vc, covar_ctx := cc\<rparr>,
                     \<lparr>buf = rest, eofbit = False, failbit = False\<rparr>)) \<and>
        parse_producer (Suc (Suc (Suc (Suc n))))
          ((Parser_new builtin_ctx)\<lparr>parser_n_vars := nv, parser_n_covars := ncv,
                                    var_ctx := vc, covar_ctx := cc\<rparr>,
           istream_of (''(cocase ((Ap ('' @ name @ '') ('' @ name @ '') ['' @ name @ '' '' @
                         name @ ''])))'' @ rest)) =
          Some (Inr (Cocase_prod
                       [Clause 7 ''Ap'' [name] [name] [nv] [ncv]
                          (Cut_stmt (Variable_prod nv name None)
                             (Covariable_cons ncv name None))] None,
                     (Parser_new builtin_ctx)\<lparr>parser_n_vars := Suc nv,
                        parser_n_covars := Suc ncv, var_ctx := vc, covar_ctx := cc\<rparr>,
                     \<lparr>buf = rest, eofbit = False, failbit = False\<rparr>)) \<and>
        (\<exists>p'. parse_definition (Suc (Suc (Suc n)))
              ((Parser_new builtin_ctx)\<lparr>parser_n_vars := nv, parser_n_covars := ncv,
                                        var_ctx := vc, covar_ctx := cc\<rparr>,
               istream_of (''(def f ('' @ name @ '') ('' @ name @ '') ['' @ name @ '' '' @ name @
                             ''])'' @ rest)) =
            Some (Inr (\<lparr>abstraction_id = 8, definition_name = ''f'', arg_names = [name],
                        coarg_names = [name], arg_ids = [nv], coarg_ids = [ncv],
                        body = Cut_stmt (Variable_prod nv name None)
                                 (Covariable_cons ncv name None)\<rparr>,
                       p', \<lparr>buf = rest, eofbit = False, failbit = False\<rparr>)) \<and>
            var_ctx p' = vc \<and> covar_ctx p' = cc \<and>
            parser_n_vars p' = Suc nv \<and> parser_n_covars p' = Suc ncv) \<and>
        parse_consumer (Suc (Suc (Suc (Suc (Suc (Suc n))))))
          (p, istream_of (''(mu'' @ [CHR 0x27] @ '' '' @ name @ '' (ifz 0 [1 (mu'' @ [CHR 0x27] @
                '' '' @ name @ '' ['' @ name @ '' <END>])] ['' @ name @ '' <END>]))'' @ rest)) =
          Some (Inr (Mu_cons (parser_n_vars p) name
                       (Ifz_stmt (Value_prod 0 None)
                          (Cut_stmt (Value_prod 1 None)
                             (Mu_cons (Suc (parser_n_vars p)) name
                                (Cut_stmt (Variable_prod (Suc (parser_n_vars p)) name None)
                                   (End_cons None)) None))
                          (Cut_stmt (Variable_prod (parser_n_vars p) name None) (End_cons None)))
                       None,
                     p\<lparr>parser_n_vars := Suc (Suc (parser_n_vars p))\<rparr>,
                     \<lparr>buf = rest, eofbit = False, failbit = False\<rparr>))) \<and>
     (\<not> isalpha (of_char (hd name)) \<longrightarrow>
        parse_producer (Suc n) (p, \<lparr>buf = name @ rest, eofbit = False, failbit = False\<rparr>) \<noteq>
          Some (Inr (Variable_prod v nm t, st')) \<and>
        parse_consumer (Suc n) (p, \<lparr>buf = name @ rest, eofbit = False, failbit = False\<rparr>) \<noteq>
          Some (Inr (Covariable_cons v nm t, st')))"
proof -
  note a = assms(2,3,1)
  have letter:
    "(var_ctx p name \<noteq> [] \<and> (rest = [] \<or> \<not> word_char (hd rest)) \<longrightarrow>
           parse_producer (Suc n) (p, \<lparr>buf = name @ rest, eofbit = False, failbit = False\<rparr>) =
             Some (Inr (Variable_prod (last (var_ctx p name)) name None, p,
                        \<lparr>buf = rest, eofbit = (rest = []), failbit = False\<rparr>))) \<and>
        (covar_ctx p name \<noteq> [] \<and> (rest = [] \<or> \<not> word_char (hd rest)) \<longrightarrow>
           parse_consumer (Suc n) (p, \<lparr>buf = name @ rest, eofbit = False, failbit = False\<rparr>) =
             Some (Inr (Covariable_cons (last (covar_ctx p name)) name None, p,
                        \<lparr>buf = rest, eofbit = (rest = []), failbit = False\<rparr>)))"
    if l: "isalpha (of_char (hd name))"
    using parse_producer_variable [OF a _ _ l, where rest = rest and p = p and n = n]
      parse_consumer_covariable [OF a _ _ l, where rest = rest and p = p and n = n]
    by simp
  show ?thesis
    using mu_c_binder_any [OF a, where n = n and p = p and rest = rest] mu_p_binder_any [OF a, where n = n and p = p and rest = rest]
      case_binder_any [OF a, where n = n and nv = nv and ncv = ncv and vc = vc and cc = cc and rest = rest]
      cocase_binder_any [OF a, where n = n and nv = nv and ncv = ncv and vc = vc and cc = cc and rest = rest]
      def_binder_any [OF a, where n = n and nv = nv and ncv = ncv and vc = vc and cc = cc and rest = rest]
      letter mu_c_binder [OF a, where n = n and p = p and rest = rest] mu_p_binder [OF a, where n = n and p = p and rest = rest]
      case_binder_use [OF a, where n = n and nv = nv and ncv = ncv and vc = vc and cc = cc and rest = rest]
      cocase_binder_use [OF a, where n = n and nv = nv and ncv = ncv and vc = vc and cc = cc and rest = rest]
      def_binder_use [OF a, where n = n and nv = nv and ncv = ncv and vc = vc and cc = cc and rest = rest]
      nested_binders [OF a, where n = n and p = p and rest = rest]
      producer_use_needs_letter [OF assms(2,1), where n = n and p = p and rest = rest and v = v and nm = nm and t = t
        and st' = st']
      consumer_use_needs_letter [OF assms(2,1), where n = n and p = p and rest = rest and v = v and nm = nm and t = t
        and st' = st']
    by blast
qed


theorem identifier_binder_and_use_witness:
  "''a<b'' \<noteq> [] \<and> list_all word_char ''a<b'' \<and> isalpha (of_char (hd ''a<b'')) \<and>
   length ''a<b'' < SIZE_MAX \<and>
   parse_producer (Suc 0)
     ((Parser_new builtin_ctx)\<lparr>var_ctx := (\<lambda>name. [])(''a<b'' := [3, 7])\<rparr>,
      \<lparr>buf = ''a<b]'', eofbit = False, failbit = False\<rparr>) =
     Some (Inr (Variable_prod 7 ''a<b'' None,
                (Parser_new builtin_ctx)\<lparr>var_ctx := (\<lambda>name. [])(''a<b'' := [3, 7])\<rparr>,
                \<lparr>buf = '']'', eofbit = False, failbit = False\<rparr>)) \<and>
   parse_consumer (Suc (Suc (Suc 0)))
     ((Parser_new builtin_ctx)\<lparr>var_ctx := (\<lambda>name. [])(''a<b'' := [3, 7])\<rparr>,
      istream_of (''(mu'' @ [CHR 0x27] @ '' a<b [a<b <END>])]'')) =
     Some (Inr (Mu_cons 0 ''a<b'' (Cut_stmt (Variable_prod 0 ''a<b'' None) (End_cons None)) None,
                (Parser_new builtin_ctx)
                  \<lparr>parser_n_vars := Suc 0, var_ctx := (\<lambda>name. [])(''a<b'' := [3, 7])\<rparr>,
                \<lparr>buf = '']'', eofbit = False, failbit = False\<rparr>)) \<and>
   parse_producer (Suc (Suc (Suc (Suc 0))))
     ((Parser_new builtin_ctx)\<lparr>parser_n_vars := 4, parser_n_covars := 2,
         var_ctx := (\<lambda>name. [])(''a<b'' := [3, 7]), covar_ctx := (\<lambda>name. [])\<rparr>,
      istream_of ''(cocase ((Ap (a<b) (a<b) [a<b a<b])))]'') =
     Some (Inr (Cocase_prod
                  [Clause 7 ''Ap'' [''a<b''] [''a<b''] [4] [2]
                     (Cut_stmt (Variable_prod 4 ''a<b'' None) (Covariable_cons 2 ''a<b'' None))]
                  None,
                (Parser_new builtin_ctx)\<lparr>parser_n_vars := 5, parser_n_covars := 3,
                   var_ctx := (\<lambda>name. [])(''a<b'' := [3, 7]), covar_ctx := (\<lambda>name. [])\<rparr>,
                \<lparr>buf = '']'', eofbit = False, failbit = False\<rparr>)) \<and>
   ''_x'' \<noteq> [] \<and> list_all word_char ''_x'' \<and> \<not> isalpha (of_char (hd ''_x'')) \<and>
   length ''_x'' < SIZE_MAX \<and>
   parse_consumer (Suc (Suc (Suc 0)))
     (Parser_new builtin_ctx, istream_of (''(mu'' @ [CHR 0x27] @ '' _x [1 <END>])]'')) =
     Some (Inr (Mu_cons 0 ''_x'' (Cut_stmt (Value_prod 1 None) (End_cons None)) None,
                (Parser_new builtin_ctx)\<lparr>parser_n_vars := Suc 0\<rparr>,
                \<lparr>buf = '']'', eofbit = False, failbit = False\<rparr>)) \<and>
   parse_producer (Suc 0)
     ((Parser_new builtin_ctx)\<lparr>var_ctx := (\<lambda>name. [])(''_x'' := [0])\<rparr>,
      \<lparr>buf = ''_x]'', eofbit = False, failbit = False\<rparr>) \<noteq>
     Some (Inr (Variable_prod 0 ''_x'' None,
                (Parser_new builtin_ctx)\<lparr>var_ctx := (\<lambda>name. [])(''_x'' := [0])\<rparr>,
                \<lparr>buf = '']'', eofbit = False, failbit = False\<rparr>))"
proof -
  let ?vc = "(\<lambda>name. [])(''a<b'' := [3 :: nat, 7])"
  let ?p = "(Parser_new builtin_ctx)\<lparr>var_ctx := ?vc\<rparr>"
  let ?q = "(Parser_new builtin_ctx)\<lparr>var_ctx := (\<lambda>name. [])(''_x'' := [0 :: nat])\<rparr>"
  have a: "''a<b'' \<noteq> []" "\<forall>c\<in>set ''a<b''. word_char c" "length ''a<b'' < SIZE_MAX"
    "isalpha (of_char (hd ''a<b''))"
    by (simp_all add: word_char_def isspace_def isalpha_def SIZE_MAX_def)
  have u: "''_x'' \<noteq> []" "\<forall>c\<in>set ''_x''. word_char c" "length ''_x'' < SIZE_MAX"
    "\<not> isalpha (of_char (hd ''_x''))"
    by (simp_all add: word_char_def isspace_def isalpha_def SIZE_MAX_def)
  note t1 = identifier_binder_and_use [OF a(1-3), where p = ?p and rest = "'']''" and n = 0
      and nv = 4 and ncv = 2 and vc = ?vc and cc = "\<lambda>name. []"]
  note t2 = identifier_binder_and_use [OF u(1-3), where p = "Parser_new builtin_ctx"
      and rest = "'']''" and n = 0]
  note t3 = identifier_binder_and_use [OF u(1-3), where p = ?q and rest = "'']''" and n = 0
      and v = 0 and nm = "''_x''" and t = None
      and st' = "(?q, \<lparr>buf = '']'', eofbit = False, failbit = False\<rparr>)"]
  have r1: "parse_producer (Suc 0) (?p, \<lparr>buf = ''a<b]'', eofbit = False, failbit = False\<rparr>) =
     Some (Inr (Variable_prod 7 ''a<b'' None, ?p,
                \<lparr>buf = '']'', eofbit = False, failbit = False\<rparr>))"
    using t1 a(4) by (simp add: word_char_def Parser_new_def)
  have r2: "parse_consumer (Suc (Suc (Suc 0)))
     (?p, istream_of (''(mu'' @ [CHR 0x27] @ '' a<b [a<b <END>])]'')) =
     Some (Inr (Mu_cons 0 ''a<b'' (Cut_stmt (Variable_prod 0 ''a<b'' None) (End_cons None)) None,
                (Parser_new builtin_ctx)\<lparr>parser_n_vars := Suc 0, var_ctx := ?vc\<rparr>,
                \<lparr>buf = '']'', eofbit = False, failbit = False\<rparr>))"
    using t1 a(4) by (simp add: Parser_new_def)
  have r3: "parse_producer (Suc (Suc (Suc (Suc 0))))
     ((Parser_new builtin_ctx)\<lparr>parser_n_vars := 4, parser_n_covars := 2,
         var_ctx := ?vc, covar_ctx := (\<lambda>name. [])\<rparr>,
      istream_of ''(cocase ((Ap (a<b) (a<b) [a<b a<b])))]'') =
     Some (Inr (Cocase_prod
                  [Clause 7 ''Ap'' [''a<b''] [''a<b''] [4] [2]
                     (Cut_stmt (Variable_prod 4 ''a<b'' None) (Covariable_cons 2 ''a<b'' None))]
                  None,
                (Parser_new builtin_ctx)\<lparr>parser_n_vars := 5, parser_n_covars := 3,
                   var_ctx := ?vc, covar_ctx := (\<lambda>name. [])\<rparr>,
                \<lparr>buf = '']'', eofbit = False, failbit = False\<rparr>))"
    using t1 a(4) by simp
  have r4: "parse_consumer (Suc (Suc (Suc 0)))
     (Parser_new builtin_ctx, istream_of (''(mu'' @ [CHR 0x27] @ '' _x [1 <END>])]'')) =
     Some (Inr (Mu_cons 0 ''_x'' (Cut_stmt (Value_prod 1 None) (End_cons None)) None,
                (Parser_new builtin_ctx)\<lparr>parser_n_vars := Suc 0\<rparr>,
                \<lparr>buf = '']'', eofbit = False, failbit = False\<rparr>))"
    using t2 by (simp add: Parser_new_def)
  have r5: "parse_producer (Suc 0) (?q, \<lparr>buf = ''_x]'', eofbit = False, failbit = False\<rparr>) \<noteq>
     Some (Inr (Variable_prod 0 ''_x'' None, ?q,
                \<lparr>buf = '']'', eofbit = False, failbit = False\<rparr>))"
    using t3 u(4) by simp
  show ?thesis
    using a u r1 r2 r3 r4 r5 by (simp add: list_all_iff)
qed


subsection \<open>Division of \<open>INT64_MIN\<close> by \<open>-1\<close>\<close>

lemma literal_less_SIZE_MAX: "len \<le> 32 \<Longrightarrow> len < SIZE_MAX"
  by (simp add: SIZE_MAX_def)

text \<open>
  C2. \<open>do_arithmetic\<close> guards the zero divisor and nothing else: for the operands
  \<open>INT64_MIN\<close> and \<open>-1\<close> it evaluates \<open>left / right\<close> (or \<open>left % right\<close>), whose quotient
  \<open>2 ^ 63\<close> is not a 64-bit integer, so that neither \<open>div\<close> nor \<open>mod\<close> returns the truncated
  quotient or remainder, and the arithmetic statement on these two integer literals does
  not reduce to a cut. The program \<open>(/ -9223372036854775808 -1 <END>)\<close> is accepted by the
  parser (\<open>std::stoll\<close> reads both literals) and by the typer, and the interpreter ends
  abnormally on its first step, for every sufficient bound on the parser's recursion.
\<close>

theorem division_min_by_minus_one:
  "do_arithmetic Div (- (2 ^ 63)) (- 1) = None \<and>
   do_arithmetic Mod (- (2 ^ 63)) (- 1) = None \<and>
   step i (Arithmetic_stmt Div (Value_prod (- (2 ^ 63)) t1) (Value_prod (- 1) t2) after) =
     Inl Undefined_behaviour \<and>
   step i (Arithmetic_stmt Mod (Value_prod (- (2 ^ 63)) t1) (Value_prod (- 1) t2) after) =
     Inl Undefined_behaviour \<and>
   main (Suc (Suc (Suc n))) ''(/ -9223372036854775808 -1 <END>)'' = Some Abnormal_termination \<and>
   main (Suc (Suc (Suc n))) ''(% -9223372036854775808 -1 <END>)'' = Some Abnormal_termination"
proof -
  have "main (Suc (Suc (Suc n))) ''(/ -9223372036854775808 -1 <END>)'' = Some Abnormal_termination"
    by (simp add: main_def default_typing_context_eq
        program_eval parsers_Suc parse_defs parse_arithmetic_def parser_monad_defs
        stream_eval literal_less_SIZE_MAX char_of_def stoll_def Parser_new_def ctx_eval
        builtin_ctx_lengths type_program_def Typer_new_def typer_monad_defs builtin_ctx_def
        run_def Interpreter_new_def run_steps.simps step_arithmetic_def representable_def)
  moreover
  have "main (Suc (Suc (Suc n))) ''(% -9223372036854775808 -1 <END>)'' = Some Abnormal_termination"
    by (simp add: main_def default_typing_context_eq
        program_eval parsers_Suc parse_defs parse_arithmetic_def parser_monad_defs
        stream_eval literal_less_SIZE_MAX char_of_def stoll_def Parser_new_def ctx_eval
        builtin_ctx_lengths type_program_def Typer_new_def typer_monad_defs builtin_ctx_def
        run_def Interpreter_new_def run_steps.simps step_arithmetic_def representable_def)
  ultimately show ?thesis
    by (simp add: step_arithmetic_def representable_def)
qed

end
